theory Spec2Isabelle
  imports Main "HOL-Library.Sublist"
begin

section \<open>Path handling\<close>

text \<open>
  The builder (\<^verbatim>\<open>packages/redwood/src/index.ts\<close>) manipulates paths with the functions
  of Node's \<^verbatim>\<open>path\<close> module. The functions below give their POSIX behaviour on
  strings: the separator is the forward slash. Paths are character lists.
\<close>

definition sep :: string where
  "sep = ''/''"

definition isSlash :: "char \<Rightarrow> bool" where
  "isSlash c = (c = CHR ''/'')"

definition notSlash :: "char \<Rightarrow> bool" where
  "notSlash c = (c \<noteq> CHR ''/'')"

definition notDot :: "char \<Rightarrow> bool" where
  "notDot c = (c \<noteq> CHR ''.'')"

definition isAbsolute :: "string \<Rightarrow> bool" where
  "isAbsolute p = (case p of [] \<Rightarrow> False | c # _ \<Rightarrow> isSlash c)"

text \<open>\<^verbatim>\<open>s.split('/')\<close>: the pieces between slashes, empty pieces included.\<close>

fun splitSlash :: "string \<Rightarrow> string list" where
  "splitSlash [] = [[]]"
| "splitSlash (c # cs) =
     (if isSlash c then [] # splitSlash cs
      else (case splitSlash cs of [] \<Rightarrow> [[c]] | s # ss \<Rightarrow> (c # s) # ss))"

text \<open>\<^verbatim>\<open>segs.join('/')\<close>.\<close>

fun joinSlash :: "string list \<Rightarrow> string" where
  "joinSlash [] = []"
| "joinSlash [s] = s"
| "joinSlash (s # t # ts) = s @ ''/'' @ joinSlash (t # ts)"

text \<open>
  \<^verbatim>\<open>normalizeString(path, allowAboveRoot)\<close> of Node: the segments of the path are pushed
  on a stack (kept here with its top first); empty segments and \<^verbatim>\<open>.\<close> are skipped,
  \<^verbatim>\<open>..\<close> removes the segment on top unless there is none or it is \<^verbatim>\<open>..\<close> itself, in
  which case \<^verbatim>\<open>..\<close> is kept only when \<open>allowAboveRoot\<close> holds.
\<close>

fun normalizeStep :: "bool \<Rightarrow> string list \<Rightarrow> string \<Rightarrow> string list" where
  "normalizeStep allowAboveRoot stack seg =
     (if seg = [] \<or> seg = ''.'' then stack
      else if seg = ''..'' then
        (case stack of
           [] \<Rightarrow> if allowAboveRoot then [''..''] else []
         | topSeg # below \<Rightarrow>
             if topSeg \<noteq> ''..'' then below
             else if allowAboveRoot then ''..'' # stack else stack)
      else seg # stack)"

definition normalizeString :: "bool \<Rightarrow> string \<Rightarrow> string" where
  "normalizeString allowAboveRoot path =
     joinSlash (rev (foldl (normalizeStep allowAboveRoot) [] (splitSlash path)))"

text \<open>\<^verbatim>\<open>path.normalize\<close>.\<close>

definition normalize :: "string \<Rightarrow> string" where
  "normalize path =
     (if path = [] then ''.''
      else
        let isAbs = isAbsolute path;
            trailingSeparator = isSlash (last path);
            p = normalizeString (\<not> isAbs) path
        in if p = [] then (if isAbs then ''/'' else if trailingSeparator then ''./'' else ''.'')
           else (if isAbs then ''/'' else []) @ p @ (if trailingSeparator then ''/'' else []))"

text \<open>\<^verbatim>\<open>path.join(...args)\<close>: the non-empty arguments joined by slashes, normalized.\<close>

definition join :: "string list \<Rightarrow> string" where
  "join args =
     (let joined = joinSlash (filter (\<lambda>a. a \<noteq> []) args)
      in if joined = [] then ''.'' else normalize joined)"

text \<open>
  \<^verbatim>\<open>path.resolve(p)\<close> with one argument: a relative path is taken from the working
  directory \<open>cwd\<close> of the process (\<^verbatim>\<open>process.cwd()\<close>, always absolute).
\<close>

definition resolve :: "string \<Rightarrow> string \<Rightarrow> string" where
  "resolve cwd p =
     (let resolvedPath =
            (if p = [] then cwd @ ''/''
             else if isAbsolute p then p @ ''/''
             else cwd @ ''/'' @ p @ ''/'');
          resolvedAbsolute = isAbsolute resolvedPath;
          n = normalizeString (\<not> resolvedAbsolute) resolvedPath
      in if resolvedAbsolute then ''/'' @ n else if n = [] then ''.'' else n)"

text \<open>The segments of a resolved path, and the longest common prefix of two lists.\<close>

definition pathSegments :: "string \<Rightarrow> string list" where
  "pathSegments p = filter (\<lambda>s. s \<noteq> []) (splitSlash p)"

fun commonPrefix :: "'a list \<Rightarrow> 'a list \<Rightarrow> 'a list" where
  "commonPrefix (x # xs) (y # ys) = (if x = y then x # commonPrefix xs ys else [])"
| "commonPrefix _ _ = []"

text \<open>
  \<^verbatim>\<open>path.relative(from, to)\<close>: both paths are resolved; the result climbs with one
  \<^verbatim>\<open>..\<close> for every segment of \<open>from\<close> below the common directory and then descends
  along the remaining segments of \<open>to\<close>.
\<close>

definition relative :: "string \<Rightarrow> string \<Rightarrow> string \<Rightarrow> string" where
  "relative cwd from to =
     (if from = to then []
      else
        let f = resolve cwd from; t = resolve cwd to
        in if f = t then []
           else
             let fs = pathSegments f; ts = pathSegments t;
                 k = length (commonPrefix fs ts)
             in joinSlash (replicate (length fs - k) ''..'' @ drop k ts))"

text \<open>
  \<^verbatim>\<open>path.parse\<close>. Trailing slashes are ignored; \<open>base\<close> is the last component, \<open>dir\<close>
  everything up to the slash in front of it (the root alone when there is no such
  slash in an absolute path). \<open>ext\<close> starts at the last dot of \<open>base\<close>, unless that
  dot is the first character of \<open>base\<close> or \<open>base\<close> is \<^verbatim>\<open>..\<close>; the scan of an absolute
  path stops in front of the root, which is why \<^verbatim>\<open>/..\<close> has the extension \<^verbatim>\<open>.\<close>.
\<close>

record ParsedPath =
  root :: string
  dir :: string
  base :: string
  ext :: string
  name :: string

definition parsePath :: "string \<Rightarrow> ParsedPath" where
  "parsePath path =
     (if path = [] then \<lparr>root = [], dir = [], base = [], ext = [], name = []\<rparr>
      else
        let isAbs = isAbsolute path;
            rt = (if isAbs then ''/'' else []);
            scanned = rev (if isAbs then tl path else path);
            r = dropWhile isSlash scanned;
            b = rev (takeWhile notSlash r);
            front = dropWhile notSlash r;
            d = (if front = [] then rt else rt @ rev (tl front));
            afterDot = rev (takeWhile notDot (rev b));
            upToDot = dropWhile notDot (rev b);
            stem = rev (tl upToDot)
        in if upToDot = [] \<or> stem = [] \<or> (b = ''..'' \<and> \<not> (isAbs \<and> front = []))
           then \<lparr>root = rt, dir = d, base = b, ext = [], name = b\<rparr>
           else \<lparr>root = rt, dir = d, base = b, ext = CHR ''.'' # afterDot, name = stem\<rparr>)"

text \<open>
  \<^verbatim>\<open>path.basename(path, suffix)\<close>. With a usable suffix (non-empty, not longer than
  the path) the last component is compared with the suffix from its end: a component
  that properly ends in the suffix loses it; a component equal to the suffix is kept;
  when the component runs out sooner than the suffix, the slice runs to the end of the
  path and keeps the trailing slashes; a path of slashes only is returned whole.
\<close>

definition basename :: "string \<Rightarrow> string \<Rightarrow> string" where
  "basename path sfx =
     (let r = dropWhile isSlash (rev path);
          b = rev (takeWhile notSlash r)
      in if sfx \<noteq> [] \<and> length sfx \<le> length path then
           (if sfx = path then []
            else if r = [] then path
            else if b = sfx then b
            else if suffix sfx b then take (length b - length sfx) b
            else if suffix b sfx then b @ takeWhile isSlash (rev path)
            else b)
         else b)"

text \<open>
  \<^verbatim>\<open>s.replace(pattern, replacement)\<close> with a string pattern: the first occurrence only.
  (The replacements used by the builder contain no dollar sign.)
\<close>

fun replaceFirst :: "string \<Rightarrow> string \<Rightarrow> string \<Rightarrow> string" where
  "replaceFirst pat rep [] = (if pat = [] then rep else [])"
| "replaceFirst pat rep (c # cs) =
     (if prefix pat (c # cs) then rep @ drop (length pat) (c # cs)
      else c # replaceFirst pat rep cs)"

section \<open>Data model\<close>

text \<open>
  A thrown value carries an optional \<^verbatim>\<open>code\<close> (file-system errors have one) and a
  message. A \<^verbatim>\<open>Buffer\<close> is the list of its bytes.
\<close>

datatype error = Error (code: "string option") (message: string)

type_synonym Buffer = string

record FileFsRef =
  fsPath :: string
  mode :: nat
  contentType :: "string option"

record FileBlob =
  data :: Buffer
  blobMode :: nat

datatype File = FsRef FileFsRef | Blob FileBlob

text \<open>A warning of the tracer: an error object, whose \<^verbatim>\<open>stack\<close> may be missing.\<close>

datatype Warning = Warning (warningMessage: string) (stack: "string option")

record TraceResult =
  fileList :: "string list"
  esmFileList :: "string list"
  warnings :: "Warning list"

text \<open>
  \<^verbatim>\<open>nodeFileTrace\<close> is an external tracer. All the builder fixes about it is the
  \<^verbatim>\<open>readFile\<close> callback it hands over: the tracer may call it any number of times, on
  paths that depend on what earlier calls returned (a string, \<^verbatim>\<open>null\<close>, or an
  exception), and in the end returns its lists or throws.
\<close>

datatype nft =
    Return TraceResult
  | Throw error
  | ReadFile string "error + string option \<Rightarrow> nft"

record Lambda =
  files :: "string \<rightharpoonup> File"
  handler :: string
  runtime :: string
  memory :: "nat option"
  maxDuration :: "nat option"
  shouldAddHelpers :: bool
  shouldAddSourcemapSupport :: bool
  awsLambdaHandler :: string

record Rewrite =
  source :: string
  destination :: string

record NowConfig =
  rewrites_cfg :: "Rewrite list"
  cleanUrls :: bool
  trailingSlash :: bool

text \<open>
  A rule of the route table. The declaration of \<^verbatim>\<open>Route\<close> is not among the sources;
  the fields are those the specification gives a routing rule: source pattern,
  destination, and the two modifiers.
\<close>

record RouteRule =
  pattern :: string
  target :: string
  cleanUrl :: bool
  noTrailingSlash :: bool

record Transformed =
  transformError :: "string option"
  transformedRoutes :: "RouteRule list"

datatype Output = OutFile FileFsRef | OutLambda Lambda

record BuildResult =
  outputs :: "string \<rightharpoonup> Output"
  routes :: "RouteRule list"

text \<open>
  What the builder takes from outside: the process and its file system, and the
  functions of other packages whose code is not part of \<^verbatim>\<open>index.ts\<close>. Each is a
  parameter of the model.
\<close>

record env =
  cwd :: string
  readFileSync :: "string \<Rightarrow> error + Buffer"
  lstatSync :: "string \<Rightarrow> error + nat"
  existsSync :: "string \<Rightarrow> bool"
  bufferToString :: "Buffer \<Rightarrow> string"
  isSymbolicLink :: "nat \<Rightarrow> bool"
  nodeFileTrace :: "string list \<Rightarrow> nft"
  fromFsPath :: "string \<Rightarrow> error + FileFsRef"
  getLambdaOptionsFromFunction :: "string \<Rightarrow> error + nat option \<times> nat option"
  nodeRuntime :: string
  getTransformedRoutes :: "NowConfig \<Rightarrow> Transformed"

text \<open>
  The mutable state of one run: the two caches of \<^verbatim>\<open>build\<close>, the calls the cache made
  to the file system (in order), and the lines handed to \<^verbatim>\<open>debug\<close>. In
  \<open>sourceCache\<close> a key bound to \<open>None\<close> is the \<^verbatim>\<open>null\<close> of a file not found; a key
  without binding has not been looked up.
\<close>

datatype fsCall = ReadFileSync string | LstatSync string

record state =
  sourceCache :: "string \<rightharpoonup> Buffer option"
  fsCache :: "string \<rightharpoonup> File"
  fsCalls :: "fsCall list"
  debugLog :: "string list"

definition initialState :: state where
  "initialState = \<lparr>sourceCache = Map.empty, fsCache = Map.empty, fsCalls = [], debugLog = []\<rparr>"

section \<open>The builder\<close>

subsection \<open>Objects\<close>

text \<open>
  An object whose entries are enumerated is a list of entries in enumeration order.
  \<open>objSet\<close> is the assignment \<^verbatim>\<open>o[k] = v\<close> (an existing key keeps its place), and
  \<open>objSpread\<close> the spread \<^verbatim>\<open>{...a, ...b}\<close>. Objects that are only looked up are
  maps. Keys are taken to be ordinary property names: the name \<^verbatim>\<open>__proto__\<close>, for
  which an assignment to a plain object sets the prototype and adds no entry, is
  outside the model.
\<close>

fun objSet :: "('k \<times> 'v) list \<Rightarrow> 'k \<Rightarrow> 'v \<Rightarrow> ('k \<times> 'v) list" where
  "objSet [] k v = [(k, v)]"
| "objSet ((k', v') # kvs) k v =
     (if k' = k then (k, v) # kvs else (k', v') # objSet kvs k v)"

definition objSpread :: "('k \<times> 'v) list \<Rightarrow> ('k \<times> 'v) list \<Rightarrow> ('k \<times> 'v) list" where
  "objSpread a b = foldl (\<lambda>acc (k, v). objSet acc k v) (foldl (\<lambda>acc (k, v). objSet acc k v) [] a) b"

subsection \<open>Configuration and names\<close>

text \<open>
  \<^verbatim>\<open>toml?.web?.apiProxyPath?.replace(/^\//, '') ?? 'api'\<close>; the argument is the
  configured proxy path, if there is one.
\<close>

definition apiDir :: "string option \<Rightarrow> string" where
  "apiDir apiProxyPath =
     (case apiProxyPath of
        None \<Rightarrow> ''api''
      | Some p \<Rightarrow> (case p of [] \<Rightarrow> [] | c # cs \<Rightarrow> if isSlash c then cs else p))"

definition apiDistPath :: "string \<Rightarrow> string" where
  "apiDistPath workPath = join [workPath, ''api'', ''dist'', ''functions'']"

definition webDistPath :: "string \<Rightarrow> string" where
  "webDistPath workPath = join [workPath, ''web'', ''dist'']"

definition outputName :: "string \<Rightarrow> string \<Rightarrow> string" where
  "outputName mount funcName = join [mount, name (parsePath funcName)]"

definition getAWSLambdaHandler :: "string \<Rightarrow> string \<Rightarrow> string" where
  "getAWSLambdaHandler filePath handlerName =
     (let p = parsePath filePath
      in dir p @ (if dir p \<noteq> [] then sep else []) @ name p @ ''.'' @ handlerName)"

definition sourceFile :: "string \<Rightarrow> string" where
  "sourceFile relativeEntrypoint = replaceFirst ''/dist/'' ''/src/'' relativeEntrypoint"

subsection \<open>Static files\<close>

text \<open>
  One round of the loop over the files of \<^verbatim>\<open>web/dist\<close>: the key under which the file
  is stored, and the stored reference.
\<close>

definition staticKey :: "env \<Rightarrow> string \<Rightarrow> string \<times> FileFsRef \<Rightarrow> string" where
  "staticKey e workPath entry =
     (case entry of (fileName, fileFsRef) \<Rightarrow>
        let parsedPath = parsePath (fsPath fileFsRef)
        in if ext parsedPath \<noteq> ''.html'' then fileName
           else
             let fileNameWithoutExtension = basename fileName ''.html'';
                 pathWithoutHtmlExtension = join [dir parsedPath, fileNameWithoutExtension]
             in relative (cwd e) (webDistPath workPath) pathWithoutHtmlExtension)"

definition staticValue :: "string \<times> FileFsRef \<Rightarrow> FileFsRef" where
  "staticValue entry =
     (case entry of (fileName, fileFsRef) \<Rightarrow>
        if ext (parsePath (fsPath fileFsRef)) \<noteq> ''.html'' then fileFsRef
        else fileFsRef\<lparr>contentType := Some ''text/html; charset=utf-8''\<rparr>)"

fun staticLoop ::
  "env \<Rightarrow> string \<Rightarrow> (string \<times> FileFsRef) list \<Rightarrow> (string \<rightharpoonup> FileFsRef) \<Rightarrow> (string \<rightharpoonup> FileFsRef)" where
  "staticLoop e workPath [] acc = acc"
| "staticLoop e workPath (entry # entries) acc =
     staticLoop e workPath entries (acc(staticKey e workPath entry \<mapsto> staticValue entry))"

definition staticOutputs :: "env \<Rightarrow> string \<Rightarrow> (string \<times> FileFsRef) list \<Rightarrow> (string \<rightharpoonup> FileFsRef)" where
  "staticOutputs e workPath webDistFiles = staticLoop e workPath webDistFiles Map.empty"

subsection \<open>The cached reader\<close>

text \<open>
  The \<^verbatim>\<open>readFile\<close> callback given to the tracer. The \<^verbatim>\<open>catch\<close> clause is
  \<open>readFileCatch\<close>; an exception of \<^verbatim>\<open>readFileSync\<close> or of \<^verbatim>\<open>lstatSync\<close> ends up there.
  Every call to the file system is recorded in \<open>fsCalls\<close>. What the cache holds for a
  file that was read is a \<^verbatim>\<open>Buffer\<close>, an object, so the test \<^verbatim>\<open>if (cached)\<close> succeeds
  for it even when the file is empty.
\<close>

definition readFileCatch :: "string \<Rightarrow> state \<Rightarrow> error \<Rightarrow> (error + string option) \<times> state" where
  "readFileCatch relPath s err =
     (if code err = Some ''ENOENT'' \<or> code err = Some ''EISDIR''
      then (Inr None, s\<lparr>sourceCache := (sourceCache s)(relPath \<mapsto> None)\<rparr>)
      else (Inl err, s))"

definition readFile :: "env \<Rightarrow> string \<Rightarrow> state \<Rightarrow> string \<Rightarrow> (error + string option) \<times> state" where
  "readFile e workPath s path =
     (let relPath = relative (cwd e) workPath path
      in case sourceCache s relPath of
           Some (Some cached) \<Rightarrow> (Inr (Some (bufferToString e cached)), s)
         | Some None \<Rightarrow> (Inr None, s)
         | None \<Rightarrow>
             (let s1 = s\<lparr>fsCalls := fsCalls s @ [ReadFileSync path]\<rparr>
              in case readFileSync e path of
                   Inl err \<Rightarrow> readFileCatch relPath s1 err
                 | Inr src \<Rightarrow>
                     (let s2 = s1\<lparr>fsCalls := fsCalls s1 @ [LstatSync path]\<rparr>
                      in case lstatSync e path of
                           Inl err \<Rightarrow> readFileCatch relPath s2 err
                         | Inr m \<Rightarrow>
                             (let entry =
                                    (if isSymbolicLink e m
                                     then FsRef \<lparr>fsPath = path, mode = m, contentType = None\<rparr>
                                     else Blob \<lparr>data = src, blobMode = m\<rparr>)
                              in (Inr (Some (bufferToString e src)),
                                  s2\<lparr>fsCache := (fsCache s2)(relPath \<mapsto> entry),
                                     sourceCache := (sourceCache s2)(relPath \<mapsto> Some src)\<rparr>)))))"

text \<open>Running the tracer against the cached reader.\<close>

primrec runTrace :: "env \<Rightarrow> string \<Rightarrow> nft \<Rightarrow> state \<Rightarrow> (error + TraceResult) \<times> state" where
  "runTrace e workPath (Return r) = (\<lambda>s. (Inr r, s))"
| "runTrace e workPath (Throw err) = (\<lambda>s. (Inl err, s))"
| "runTrace e workPath (ReadFile path k) =
     (\<lambda>s. case readFile e workPath s path of (r, s') \<Rightarrow> runTrace e workPath (k r) s')"

subsection \<open>Packaging one function\<close>

text \<open>The loop over the warnings: those with a non-empty stack go to \<^verbatim>\<open>debug\<close>.\<close>

fun forwardWarnings :: "Warning list \<Rightarrow> state \<Rightarrow> state" where
  "forwardWarnings [] s = s"
| "forwardWarnings (w # ws) s =
     forwardWarnings ws
       (case stack w of
          None \<Rightarrow> s
        | Some st \<Rightarrow>
            if st \<noteq> []
            then s\<lparr>debugLog := debugLog s @ [replaceFirst ''Error: '' ''Warning: '' st]\<rparr>
            else s)"

text \<open>The loop that fills \<^verbatim>\<open>lambdaFiles\<close> from the traced paths.\<close>

fun tracedFiles :: "env \<Rightarrow> string \<Rightarrow> string list \<Rightarrow> (string \<rightharpoonup> File) \<Rightarrow> error + (string \<rightharpoonup> File)" where
  "tracedFiles e workPath [] acc = Inr acc"
| "tracedFiles e workPath (filePath # rest) acc =
     (case fromFsPath e (join [workPath, filePath]) of
        Inl err \<Rightarrow> Inl err
      | Inr ref \<Rightarrow> tracedFiles e workPath rest (acc(filePath \<mapsto> FsRef ref)))"

text \<open>
  The body of the loop over the function files. The constructor \<^verbatim>\<open>NodejsLambda\<close> is
  taken to store the fields it is given.
\<close>

definition packageFunction ::
  "env \<Rightarrow> string \<Rightarrow> string \<Rightarrow> state \<Rightarrow> string \<times> FileFsRef \<Rightarrow> error + (string \<times> Lambda) \<times> state" where
  "packageFunction e workPath mount s entry =
     (case entry of (funcName, fileFsRef) \<Rightarrow>
        let absEntrypoint = fsPath fileFsRef;
            relativeEntrypoint = relative (cwd e) workPath absEntrypoint
        in case runTrace e workPath (nodeFileTrace e [absEntrypoint]) s of
             (Inl err, s1) \<Rightarrow> Inl err
           | (Inr tr, s1) \<Rightarrow>
               (let s2 = forwardWarnings (warnings tr) s1
                in case tracedFiles e workPath (fileList tr @ esmFileList tr) Map.empty of
                     Inl err \<Rightarrow> Inl err
                   | Inr traced \<Rightarrow>
                       (let lambdaFiles =
                              traced(relative (cwd e) workPath (fsPath fileFsRef) \<mapsto> FsRef fileFsRef)
                        in case getLambdaOptionsFromFunction e (sourceFile relativeEntrypoint) of
                             Inl err \<Rightarrow> Inl err
                           | Inr (mem, dur) \<Rightarrow>
                               Inr ((outputName mount funcName,
                                     \<lparr>files = lambdaFiles,
                                      handler = relativeEntrypoint,
                                      runtime = nodeRuntime e,
                                      memory = mem,
                                      maxDuration = dur,
                                      shouldAddHelpers = False,
                                      shouldAddSourcemapSupport = False,
                                      awsLambdaHandler =
                                        getAWSLambdaHandler relativeEntrypoint ''handler''\<rparr>),
                                    s2))))"

subsection \<open>The run\<close>

text \<open>
  \<open>functionFiles\<close> is the spread of the two globs (top level, one level deep),
  \<open>packageAll\<close> the loop over its entries, which threads the caches and fills
  \<^verbatim>\<open>lambdaOutputs\<close>. There is no handler for exceptions in the loop.
\<close>

definition functionFiles ::
  "(string \<times> FileFsRef) list \<Rightarrow> (string \<times> FileFsRef) list \<Rightarrow> (string \<times> FileFsRef) list" where
  "functionFiles topLevel oneLevelDeep = objSpread topLevel oneLevelDeep"

fun packageAll ::
  "env \<Rightarrow> string \<Rightarrow> string \<Rightarrow> (string \<times> FileFsRef) list \<Rightarrow> (string \<rightharpoonup> Lambda) \<Rightarrow> state
     \<Rightarrow> error + (string \<rightharpoonup> Lambda) \<times> state" where
  "packageAll e workPath mount [] lambdaOutputs s = Inr (lambdaOutputs, s)"
| "packageAll e workPath mount (entry # entries) lambdaOutputs s =
     (case packageFunction e workPath mount s entry of
        Inl err \<Rightarrow> Inl err
      | Inr ((outName, lam), s') \<Rightarrow>
          packageAll e workPath mount entries (lambdaOutputs(outName \<mapsto> lam)) s')"

definition fallbackHtmlPage :: "env \<Rightarrow> string \<Rightarrow> string" where
  "fallbackHtmlPage e workPath =
     (if existsSync e (join [webDistPath workPath, ''200.html'']) then ''/200'' else ''/index'')"

definition nowConfig :: "env \<Rightarrow> string \<Rightarrow> NowConfig" where
  "nowConfig e workPath =
     \<lparr>rewrites_cfg = [\<lparr>source = ''/(.*)'', destination = fallbackHtmlPage e workPath\<rparr>],
      cleanUrls = True,
      trailingSlash = False\<rparr>"

text \<open>\<^verbatim>\<open>{ ...staticOutputs, ...lambdaOutputs }\<close>.\<close>

definition mergeOutputs :: "(string \<rightharpoonup> FileFsRef) \<Rightarrow> (string \<rightharpoonup> Lambda) \<Rightarrow> (string \<rightharpoonup> Output)" where
  "mergeOutputs statics lambdas =
     (map_option OutFile \<circ> statics) ++ (map_option OutLambda \<circ> lambdas)"

text \<open>
  \<^verbatim>\<open>build\<close>, from the point where the project has been installed and built. The
  results of the three globs are arguments: the entries of \<^verbatim>\<open>web/dist\<close> and the
  function files at the top level and one level deep.
\<close>

definition build ::
  "env \<Rightarrow> string \<Rightarrow> string option \<Rightarrow> (string \<times> FileFsRef) list
     \<Rightarrow> (string \<times> FileFsRef) list \<Rightarrow> (string \<times> FileFsRef) list \<Rightarrow> error + BuildResult" where
  "build e workPath apiProxyPath webDistFiles topLevel oneLevelDeep =
     (let statics = staticOutputs e workPath webDistFiles
      in case packageAll e workPath (apiDir apiProxyPath)
                (functionFiles topLevel oneLevelDeep) Map.empty initialState of
           Inl err \<Rightarrow> Inl err
         | Inr (lambdaOutputs, s) \<Rightarrow>
             (let defaultRoutesConfig = getTransformedRoutes e (nowConfig e workPath)
              in case transformError defaultRoutesConfig of
                   Some msg \<Rightarrow> Inl (Error None msg)
                 | None \<Rightarrow>
                     Inr \<lparr>outputs = mergeOutputs statics lambdaOutputs,
                          routes = transformedRoutes defaultRoutesConfig\<rparr>))"

section \<open>Notions used to state the results\<close>

text \<open>
  A proper segment is a file or directory name: not empty, without slash, and neither
  \<^verbatim>\<open>.\<close> nor \<^verbatim>\<open>..\<close>. The paths a glob returns are proper segments joined by slashes.
\<close>

definition slashFree :: "string \<Rightarrow> bool" where
  "slashFree s = (\<forall>c\<in>set s. notSlash c)"

definition properSegment :: "string \<Rightarrow> bool" where
  "properSegment s = (s \<noteq> [] \<and> s \<noteq> ''.'' \<and> s \<noteq> ''..'' \<and> slashFree s)"

text \<open>The segments an absolute path normalizes to.\<close>

definition absSegments :: "string \<Rightarrow> string list" where
  "absSegments p = rev (foldl (normalizeStep False) [] (splitSlash p))"

text \<open>
  \<open>later e workPath s s'\<close>: the state \<open>s'\<close> comes after \<open>s\<close> in a run. The run changes
  its state in two ways only: by a call of the cached reader, and by forwarding
  warnings.
\<close>

inductive later :: "env \<Rightarrow> string \<Rightarrow> state \<Rightarrow> state \<Rightarrow> bool" for e :: env and workPath :: string where
  later_refl: "later e workPath s s"
| later_read: "later e workPath s s' \<Longrightarrow> readFile e workPath s' path = (x, s'') \<Longrightarrow> later e workPath s s''"
| later_warn: "later e workPath s s' \<Longrightarrow> later e workPath s (forwardWarnings ws s')"

text \<open>
  The first exception of the two file-system calls the reader makes for a path it has
  not looked up, if there is one; and the two error codes the reader takes for a file
  that is not there.
\<close>

definition accessFailure :: "env \<Rightarrow> string \<Rightarrow> error option" where
  "accessFailure e path =
     (case readFileSync e path of
        Inl err \<Rightarrow> Some err
      | Inr src \<Rightarrow> (case lstatSync e path of Inl err \<Rightarrow> Some err | Inr m \<Rightarrow> None))"

definition notFound :: "error \<Rightarrow> bool" where
  "notFound err = (code err = Some ''ENOENT'' \<or> code err = Some ''EISDIR'')"


text \<open>
  \<open>passesOn t\<close>: whenever the reader throws, the tracer \<open>t\<close> throws the same exception.
  \<open>readsDuring e workPath t s path s0\<close>: run from the state \<open>s\<close>, the tracer \<open>t\<close> comes to
  call the reader on \<open>path\<close> in the state \<open>s0\<close>.
\<close>

primrec passesOn :: "nft \<Rightarrow> bool" where
  "passesOn (Return r) = True"
| "passesOn (Throw err) = True"
| "passesOn (ReadFile path k) = ((\<forall>err. k (Inl err) = Throw err) \<and> (\<forall>x. passesOn (k x)))"

inductive readsDuring :: "env \<Rightarrow> string \<Rightarrow> nft \<Rightarrow> state \<Rightarrow> string \<Rightarrow> state \<Rightarrow> bool"
  for e :: env and workPath :: string where
  reads_here: "readsDuring e workPath (ReadFile path k) s path s"
| reads_there:
    "readFile e workPath s p = (r, s1) \<Longrightarrow> readsDuring e workPath (k r) s1 path s0 \<Longrightarrow>
       readsDuring e workPath (ReadFile p k) s path s0"


text \<open>The stack texts of the warnings that have one.\<close>

definition stacks :: "Warning list \<Rightarrow> string list" where
  "stacks ws =
     List.map_filter
       (\<lambda>w. case stack w of None \<Rightarrow> None | Some st \<Rightarrow> if st \<noteq> [] then Some st else None) ws"

section \<open>The rule transformation\<close>

text \<open>
  Modelled from the spec: \<^verbatim>\<open>getTransformedRoutes\<close> of the routing utilities, the
  rule-transformation step behind the route table, whose code is not among the
  sources. The specification has it produce exactly one rule for the one rewrite it is
  given (match the source pattern, rewrite to the destination) with the clean-URL and
  no-trailing-slash modifiers of the configuration, and report a structural error for
  a malformed pattern; \<open>malformed\<close> is that test, which the specification leaves open.
\<close>

definition ruleTransformation :: "(string \<Rightarrow> string option) \<Rightarrow> NowConfig \<Rightarrow> Transformed" where
  "ruleTransformation malformed cfg =
     (case List.map_filter (\<lambda>r. malformed (source r)) (rewrites_cfg cfg) of
        msg # _ \<Rightarrow> \<lparr>transformError = Some msg, transformedRoutes = []\<rparr>
      | [] \<Rightarrow>
          \<lparr>transformError = None,
           transformedRoutes =
             map (\<lambda>r. \<lparr>pattern = source r, target = destination r,
                        cleanUrl = cleanUrls cfg, noTrailingSlash = \<not> trailingSlash cfg\<rparr>)
               (rewrites_cfg cfg)\<rparr>)"

section \<open>An example project\<close>

text \<open>
  A small project under \<^verbatim>\<open>/work\<close>, used to run the model: five files can be read,
  one cannot be opened, everything else is missing. The tracer reads the entrypoint, a
  shared dependency and a missing file, passes exceptions of the reader on, and
  reports two warnings. File references are made from
  the mode \<^verbatim>\<open>lstat\<close> gives, and the lookup of the configuration fails for the source
  file of one function.
\<close>

definition exampleFiles :: "string \<Rightarrow> Buffer option" where
  "exampleFiles p =
     (if p = ''/work/api/dist/functions/graphql.js'' then Some ''top''
      else if p = ''/work/api/dist/functions/graphql/graphql.js'' then Some ''nested''
      else if p = ''/work/api/dist/functions/auth.js'' then Some ''auth''
      else if p = ''/work/api/dist/functions/broken.js'' then Some ''broken''
      else if p = ''/work/node_modules/dep.js'' then Some ''dep''
      else None)"

definition exampleRead :: "string \<Rightarrow> error + Buffer" where
  "exampleRead p =
     (case exampleFiles p of
        Some b \<Rightarrow> Inr b
      | None \<Rightarrow>
          if p = ''/work/api/dist/functions/locked.js''
          then Inl (Error (Some ''EACCES'') ''permission denied'')
          else Inl (Error (Some ''ENOENT'') ''no such file''))"

definition exampleStat :: "string \<Rightarrow> error + nat" where
  "exampleStat p =
     (case exampleFiles p of
        Some b \<Rightarrow> Inr 33188
      | None \<Rightarrow> Inl (Error (Some ''ENOENT'') ''no such file''))"

definition exampleTrace :: "string list \<Rightarrow> nft" where
  "exampleTrace entrypoints =
     (case entrypoints of
        [] \<Rightarrow> Throw (Error None ''nothing to trace'')
      | entry # _ \<Rightarrow>
          ReadFile entry (\<lambda>r1.
            case r1 of
              Inl err \<Rightarrow> Throw err
            | Inr _ \<Rightarrow>
                ReadFile ''/work/node_modules/dep.js'' (\<lambda>r2.
                  case r2 of
                    Inl err \<Rightarrow> Throw err
                  | Inr _ \<Rightarrow>
                      ReadFile ''/work/node_modules/gone.js'' (\<lambda>r3.
                        case r3 of
                          Inl err \<Rightarrow> Throw err
                        | Inr _ \<Rightarrow>
                            Return \<lparr>fileList = [drop 6 entry, ''node_modules/dep.js''],
                                    esmFileList = [''node_modules/dep.js''],
                                    warnings =
                                      [Warning ''unresolved'' (Some ''Error: unresolved import''),
                                       Warning ''missing''
                                         (Some ''Error: File /work/node_modules/gone.js does not exist.'')]\<rparr>))))"

text \<open>
  A second tracer, which reads the entrypoint only and catches what the reader throws:
  it turns the exception into a warning and returns without files.
\<close>

definition swallowingTrace :: "string list \<Rightarrow> nft" where
  "swallowingTrace entrypoints =
     (case entrypoints of
        [] \<Rightarrow> Throw (Error None ''nothing to trace'')
      | entry # _ \<Rightarrow>
          ReadFile entry (\<lambda>r.
            case r of
              Inl err \<Rightarrow>
                Return \<lparr>fileList = [], esmFileList = [],
                        warnings = [Warning (message err) (Some (''Error: '' @ message err))]\<rparr>
            | Inr _ \<Rightarrow>
                Return \<lparr>fileList = [drop 6 entry], esmFileList = [], warnings = []\<rparr>))"

definition exampleEnv :: env where
  "exampleEnv =
     \<lparr>cwd = ''/work'',
      readFileSync = exampleRead,
      lstatSync = exampleStat,
      existsSync = (\<lambda>p. p = ''/work/web/dist/200.html''),
      bufferToString = (\<lambda>b. b),
      isSymbolicLink = (\<lambda>m. (m div 4096) mod 16 = 10),
      nodeFileTrace = exampleTrace,
      fromFsPath =
        (\<lambda>p. case exampleStat p of
               Inl err \<Rightarrow> Inl err
             | Inr m \<Rightarrow> Inr \<lparr>fsPath = p, mode = m, contentType = None\<rparr>),
      getLambdaOptionsFromFunction =
        (\<lambda>src. if src = ''api/src/functions/broken.js''
               then Inl (Error None ''invalid function configuration'')
               else Inr (None, None)),
      nodeRuntime = ''nodejs18.x'',
      getTransformedRoutes = ruleTransformation (\<lambda>p. None)\<rparr>"

definition exampleRef :: "string \<Rightarrow> FileFsRef" where
  "exampleRef p = \<lparr>fsPath = p, mode = 33188, contentType = None\<rparr>"

section \<open>Facts about paths\<close>


lemma takeWhile_notSlash_app:
  "\<forall>c\<in>set xs. notSlash c \<Longrightarrow> takeWhile notSlash (xs @ CHR ''/'' # ys) = xs"
  by (induction xs) (auto simp: notSlash_def)

lemma dropWhile_notSlash_app:
  "\<forall>c\<in>set xs. notSlash c \<Longrightarrow> dropWhile notSlash (xs @ CHR ''/'' # ys) = CHR ''/'' # ys"
  by (induction xs) (auto simp: notSlash_def)

lemma takeWhile_notSlash_all:
  "\<forall>c\<in>set xs. notSlash c \<Longrightarrow> takeWhile notSlash xs = xs"
  by (induction xs) auto

lemma dropWhile_notSlash_all:
  "\<forall>c\<in>set xs. notSlash c \<Longrightarrow> dropWhile notSlash xs = []"
  by (induction xs) auto

lemma dropWhile_isSlash_id:
  "xs \<noteq> [] \<Longrightarrow> notSlash (hd xs) \<Longrightarrow> dropWhile isSlash xs = xs"
  by (cases xs) (auto simp: notSlash_def isSlash_def)

lemma takeWhile_notDot_app:
  "\<forall>c\<in>set xs. notDot c \<Longrightarrow> takeWhile notDot (xs @ CHR ''.'' # ys) = xs"
  by (induction xs) (auto simp: notDot_def)

lemma dropWhile_notDot_app:
  "\<forall>c\<in>set xs. notDot c \<Longrightarrow> dropWhile notDot (xs @ CHR ''.'' # ys) = CHR ''.'' # ys"
  by (induction xs) (auto simp: notDot_def)

lemma parsePath_nested:
  assumes d: "d \<noteq> []"
    and stem: "stem \<noteq> []" "\<forall>c\<in>set stem. notSlash c"
    and x: "x \<noteq> []" "\<forall>c\<in>set x. notSlash c \<and> notDot c"
  shows "parsePath (d @ ''/'' @ stem @ ''.'' @ x) =
           \<lparr>root = (if isAbsolute d then ''/'' else []), dir = d,
            base = stem @ ''.'' @ x, ext = ''.'' @ x, name = stem\<rparr>"
proof -
  let ?b = "stem @ ''.'' @ x"
  have bns: "\<forall>c\<in>set (rev ?b). notSlash c" using stem x by (auto simp: notSlash_def)
  have bne: "rev ?b \<noteq> []" by simp
  have hdb: "notSlash (hd (rev ?b @ zs))" for zs
    using x by (cases x rule: rev_cases) (auto simp: notSlash_def)
  obtain c d' where dd: "d = c # d'" using d by (cases d) auto
  let ?d0 = "if isSlash c then d' else d"
  have scanned: "rev (if isAbsolute (d @ ''/'' @ ?b) then tl (d @ ''/'' @ ?b) else d @ ''/'' @ ?b)
        = rev ?b @ CHR ''/'' # rev ?d0"
    by (simp add: dd isAbsolute_def)
  have r: "dropWhile isSlash (rev ?b @ CHR ''/'' # rev ?d0) = rev ?b @ CHR ''/'' # rev ?d0"
    by (rule dropWhile_isSlash_id) (use hdb in auto)
  have tw: "takeWhile notSlash (rev ?b @ CHR ''/'' # rev ?d0) = rev ?b"
    by (rule takeWhile_notSlash_app[OF bns])
  have dw: "dropWhile notSlash (rev ?b @ CHR ''/'' # rev ?d0) = CHR ''/'' # rev ?d0"
    by (rule dropWhile_notSlash_app[OF bns])
  have revb: "rev ?b = rev x @ CHR ''.'' # rev stem" by simp
  have xnd: "\<forall>c\<in>set (rev x). notDot c" using x by auto
  have twd: "takeWhile notDot (rev ?b) = rev x"
    unfolding revb by (rule takeWhile_notDot_app[OF xnd])
  have dwd: "dropWhile notDot (rev ?b) = CHR ''.'' # rev stem"
    unfolding revb by (rule dropWhile_notDot_app[OF xnd])
  have ndd: "?b \<noteq> ''..''" using x stem by (cases stem; cases x) auto
  have rt: "(if isSlash c then ''/'' else []) @ ?d0 = d"
    by (auto simp: dd isSlash_def)
  show ?thesis
    unfolding parsePath_def Let_def scanned r tw dw
    using ndd stem rt twd dwd by (simp add: dd isAbsolute_def)
qed



lemma splitSlash_nonempty: "splitSlash s \<noteq> []"
  by (induction s) (simp_all split: list.split)

lemma splitSlash_slashFree: "slashFree s \<Longrightarrow> splitSlash s = [s]"
  by (induction s) (simp_all add: slashFree_def notSlash_def isSlash_def)

lemma splitSlash_append:
  "splitSlash (a @ CHR ''/'' # b) = splitSlash a @ splitSlash b"
proof (induction a)
  case Nil
  show ?case by (simp add: isSlash_def)
next
  case (Cons c a)
  obtain s ss where sp: "splitSlash a = s # ss"
    using splitSlash_nonempty[of a] by (cases "splitSlash a") auto
  show ?case using Cons sp by simp
qed

lemma splitSlash_segments_slashFree: "\<forall>s\<in>set (splitSlash p). slashFree s"
proof (induction p)
  case Nil
  show ?case by (simp add: slashFree_def)
next
  case (Cons c p)
  obtain s ss where sp: "splitSlash p = s # ss"
    using splitSlash_nonempty[of p] by (cases "splitSlash p") auto
  show ?case using Cons sp by (simp add: slashFree_def notSlash_def isSlash_def)
qed

lemma joinSlash_Cons: "ss \<noteq> [] \<Longrightarrow> joinSlash (s # ss) = s @ CHR ''/'' # joinSlash ss"
  by (cases ss) auto

lemma joinSlash_append:
  "xs \<noteq> [] \<Longrightarrow> ys \<noteq> [] \<Longrightarrow> joinSlash (xs @ ys) = joinSlash xs @ CHR ''/'' # joinSlash ys"
  by (induction xs rule: joinSlash.induct) (auto simp: joinSlash_Cons)

lemma joinSlash_snoc:
  "xs \<noteq> [] \<Longrightarrow> joinSlash (xs @ [y]) = joinSlash xs @ CHR ''/'' # y"
  by (simp add: joinSlash_append)

lemma splitSlash_joinSlash:
  "ss \<noteq> [] \<Longrightarrow> \<forall>s\<in>set ss. slashFree s \<Longrightarrow> splitSlash (joinSlash ss) = ss"
proof (induction ss rule: joinSlash.induct)
  case (3 s t ts)
  then show ?case using splitSlash_append[of s "joinSlash (t # ts)"]
    by (simp add: splitSlash_slashFree)
qed (auto simp: splitSlash_slashFree)

lemma joinSlash_eq_Nil: "\<forall>s\<in>set ss. s \<noteq> [] \<Longrightarrow> joinSlash ss = [] \<longleftrightarrow> ss = []"
  by (induction ss rule: joinSlash.induct) auto

lemma normalizeStep_proper: "properSegment s \<Longrightarrow> normalizeStep a st s = s # st"
  by (simp add: properSegment_def)

lemma foldl_normalizeStep_proper:
  "\<forall>s\<in>set ss. properSegment s \<Longrightarrow> foldl (normalizeStep a) st ss = rev ss @ st"
  by (induction ss arbitrary: st) (simp_all add: normalizeStep_proper del: normalizeStep.simps)

lemma normalizeStep_keeps_proper:
  "\<forall>s\<in>set st. properSegment s \<Longrightarrow> slashFree seg \<Longrightarrow>
     \<forall>s\<in>set (normalizeStep False st seg). properSegment s"
proof -
  assume st: "\<forall>s\<in>set st. properSegment s" and seg: "slashFree seg"
  consider "seg = [] \<or> seg = ''.''" | "seg = ''..''" | "properSegment seg"
    using seg unfolding properSegment_def by blast
  then show ?thesis
  proof cases
    case 1 then show ?thesis using st by auto
  next
    case 2
    show ?thesis
    proof (cases st)
      case Nil then show ?thesis using 2 by simp
    next
      case (Cons t ts)
      then have "t \<noteq> ''..''" using st by (simp add: properSegment_def)
      then show ?thesis using 2 Cons st by simp
    qed
  next
    case 3 then show ?thesis using st by (simp add: normalizeStep_proper del: normalizeStep.simps)
  qed
qed

lemma foldl_normalizeStep_keeps_proper:
  "\<forall>s\<in>set st. properSegment s \<Longrightarrow> \<forall>s\<in>set segs. slashFree s \<Longrightarrow>
     \<forall>s\<in>set (foldl (normalizeStep False) st segs). properSegment s"
proof (induction segs arbitrary: st)
  case (Cons seg segs)
  have "\<forall>s\<in>set (normalizeStep False st seg). properSegment s"
    using Cons.prems by (intro normalizeStep_keeps_proper) auto
  then show ?case using Cons by (simp del: normalizeStep.simps)
qed simp

lemma absSegments_proper: "\<forall>s\<in>set (absSegments p). properSegment s"
  unfolding absSegments_def using foldl_normalizeStep_keeps_proper[of "[]" "splitSlash p"]
  by (simp add: splitSlash_segments_slashFree)

lemma properSegment_last_notSlash:
  "ss \<noteq> [] \<Longrightarrow> \<forall>s\<in>set ss. properSegment s \<Longrightarrow> \<not> isSlash (last (pre @ joinSlash ss))"
proof (induction ss rule: rev_induct)
  case (snoc s ss)
  then have s: "s \<noteq> []" "slashFree s" by (auto simp: properSegment_def)
  then have "last s \<in> set s" by simp
  then have ns: "\<not> isSlash (last s)" using s by (auto simp: slashFree_def notSlash_def isSlash_def)
  show ?case
  proof (cases "ss = []")
    case True then show ?thesis using s ns by simp
  next
    case False then show ?thesis using s ns by (simp add: joinSlash_snoc)
  qed
qed simp

lemma join_absolute:
  assumes "isAbsolute w" "segs \<noteq> []" "\<forall>s\<in>set segs. properSegment s"
  shows "join (w # segs) = CHR ''/'' # joinSlash (absSegments w @ segs)"
proof -
  have wne: "w \<noteq> []" using assms(1) by (auto simp: isAbsolute_def)
  have segne: "\<forall>s\<in>set segs. s \<noteq> []" using assms(3) by (auto simp: properSegment_def)
  have filt: "filter (\<lambda>a. a \<noteq> []) (w # segs) = w # segs"
    using wne segne by (simp add: filter_id_conv)
  have joined: "joinSlash (w # segs) = w @ CHR ''/'' # joinSlash segs"
    using assms(2) by (simp add: joinSlash_Cons)
  have sf: "\<forall>s\<in>set segs. slashFree s" using assms(3) by (auto simp: properSegment_def)
  have split: "splitSlash (w @ CHR ''/'' # joinSlash segs) = splitSlash w @ segs"
    using assms(2) sf by (simp add: splitSlash_append splitSlash_joinSlash)
  have ns: "normalizeString False (w @ CHR ''/'' # joinSlash segs) = joinSlash (absSegments w @ segs)"
    unfolding normalizeString_def split
    using assms(3) by (simp add: foldl_normalizeStep_proper absSegments_def)
  have abs: "isAbsolute (w @ CHR ''/'' # joinSlash segs)"
    using assms(1) by (cases w) (auto simp: isAbsolute_def)
  have nn: "joinSlash (absSegments w @ segs) \<noteq> []"
    using assms(2) segne absSegments_proper[of w]
    by (subst joinSlash_eq_Nil) (auto simp: properSegment_def)
  have last: "\<not> isSlash (last (w @ CHR ''/'' # joinSlash segs))"
    using properSegment_last_notSlash[OF assms(2,3), of "w @ ''/''"] by simp
  show ?thesis
    unfolding join_def Let_def filt joined normalize_def
    using abs nn last ns by simp
qed


lemma parsePath_top:
  assumes stem: "stem \<noteq> []" "\<forall>c\<in>set stem. notSlash c"
    and x: "x \<noteq> []" "\<forall>c\<in>set x. notSlash c \<and> notDot c"
  shows "parsePath (stem @ ''.'' @ x) =
           \<lparr>root = [], dir = [], base = stem @ ''.'' @ x, ext = ''.'' @ x, name = stem\<rparr>"
proof -
  let ?b = "stem @ ''.'' @ x"
  have bns: "\<forall>c\<in>set (rev ?b). notSlash c" using stem x by (auto simp: notSlash_def)
  have nabs: "\<not> isAbsolute ?b"
    using stem by (cases stem) (auto simp: isAbsolute_def isSlash_def notSlash_def)
  have hdb: "notSlash (hd (rev ?b))"
    using x by (cases x rule: rev_cases) (auto simp: notSlash_def)
  have r: "dropWhile isSlash (rev ?b) = rev ?b"
    by (rule dropWhile_isSlash_id) (use hdb in auto)
  have tw: "takeWhile notSlash (rev ?b) = rev ?b"
    by (rule takeWhile_notSlash_all[OF bns])
  have dw: "dropWhile notSlash (rev ?b) = []"
    by (rule dropWhile_notSlash_all[OF bns])
  have revb: "rev ?b = rev x @ CHR ''.'' # rev stem" by simp
  have xnd: "\<forall>c\<in>set (rev x). notDot c" using x by auto
  have twd: "takeWhile notDot (rev ?b) = rev x"
    unfolding revb by (rule takeWhile_notDot_app[OF xnd])
  have dwd: "dropWhile notDot (rev ?b) = CHR ''.'' # rev stem"
    unfolding revb by (rule dropWhile_notDot_app[OF xnd])
  have ndd: "?b \<noteq> ''..''" using x stem by (cases stem; cases x) auto
  have scanned: "rev (if isAbsolute ?b then tl ?b else ?b) = rev ?b"
    using nabs by simp
  show ?thesis
    unfolding parsePath_def Let_def scanned r tw dw
    using nabs twd dwd ndd stem by simp
qed

lemma resolve_absolute:
  assumes "\<forall>s\<in>set ss. properSegment s"
  shows "resolve c (CHR ''/'' # joinSlash ss) = CHR ''/'' # joinSlash ss"
proof -
  have sf: "\<forall>s\<in>set ss. slashFree s" using assms by (auto simp: properSegment_def)
  have split: "splitSlash ((CHR ''/'' # joinSlash ss) @ ''/'') = [] # (if ss = [] then [[]] else ss) @ [[]]"
  proof (cases "ss = []")
    case True then show ?thesis by (simp add: isSlash_def)
  next
    case False
    have "splitSlash ((CHR ''/'' # joinSlash ss) @ ''/'') = splitSlash (CHR ''/'' # joinSlash ss) @ splitSlash []"
      using splitSlash_append[of "CHR ''/'' # joinSlash ss" "[]"] by simp
    then show ?thesis using False sf by (simp add: isSlash_def splitSlash_joinSlash)
  qed
  have fold: "foldl (normalizeStep False) [] ([] # (if ss = [] then [[]] else ss) @ [[]]) = rev ss"
    using assms by (simp add: foldl_normalizeStep_proper del: normalizeStep.simps)
       (simp)
  show ?thesis
    unfolding resolve_def Let_def
    using split fold by (simp add: isAbsolute_def isSlash_def normalizeString_def)
qed

lemma pathSegments_absolute:
  assumes "\<forall>s\<in>set ss. properSegment s"
  shows "pathSegments (CHR ''/'' # joinSlash ss) = ss"
proof -
  have sf: "\<forall>s\<in>set ss. slashFree s" and ne: "\<forall>s\<in>set ss. s \<noteq> []"
    using assms by (auto simp: properSegment_def)
  show ?thesis
  proof (cases "ss = []")
    case True then show ?thesis by (simp add: pathSegments_def isSlash_def)
  next
    case False
    then show ?thesis using sf ne
      by (simp add: pathSegments_def isSlash_def splitSlash_joinSlash filter_id_conv)
  qed
qed

lemma commonPrefix_append: "commonPrefix xs (xs @ ys) = xs"
  by (induction xs) auto

lemma relative_below:
  assumes xs: "\<forall>s\<in>set xs. properSegment s" and ys: "\<forall>s\<in>set ys. properSegment s" "ys \<noteq> []"
  shows "relative c (CHR ''/'' # joinSlash xs) (CHR ''/'' # joinSlash (xs @ ys)) = joinSlash ys"
proof -
  have xy: "\<forall>s\<in>set (xs @ ys). properSegment s" using xs ys by auto
  have neq: "CHR ''/'' # joinSlash xs \<noteq> CHR ''/'' # joinSlash (xs @ ys)"
  proof
    assume "CHR ''/'' # joinSlash xs = CHR ''/'' # joinSlash (xs @ ys)"
    then have "pathSegments (CHR ''/'' # joinSlash xs) = pathSegments (CHR ''/'' # joinSlash (xs @ ys))"
      by simp
    then have "xs = xs @ ys"
      using pathSegments_absolute[OF xs] pathSegments_absolute[OF xy] by simp
    then show False using ys by simp
  qed
  show ?thesis
    unfolding relative_def Let_def
    using neq resolve_absolute[OF xs] resolve_absolute[OF xy]
      pathSegments_absolute[OF xs] pathSegments_absolute[OF xy]
    by (simp add: commonPrefix_append)
qed


lemma parsePath_hidden_nested:
  assumes d: "d \<noteq> []" and x: "x \<noteq> []" "\<forall>c\<in>set x. notSlash c \<and> notDot c"
  shows "parsePath (d @ ''/'' @ ''.'' @ x) =
           \<lparr>root = (if isAbsolute d then ''/'' else []), dir = d,
            base = ''.'' @ x, ext = [], name = ''.'' @ x\<rparr>"
proof -
  let ?b = "''.'' @ x"
  have bns: "\<forall>c\<in>set (rev ?b). notSlash c" using x by (auto simp: notSlash_def)
  have hdb: "notSlash (hd (rev ?b @ zs))" for zs
    using x by (cases x rule: rev_cases) (auto simp: notSlash_def)
  obtain c d' where dd: "d = c # d'" using d by (cases d) auto
  let ?d0 = "if isSlash c then d' else d"
  have scanned: "rev (if isAbsolute (d @ ''/'' @ ?b) then tl (d @ ''/'' @ ?b) else d @ ''/'' @ ?b)
        = rev ?b @ CHR ''/'' # rev ?d0"
    by (simp add: dd isAbsolute_def)
  have r: "dropWhile isSlash (rev ?b @ CHR ''/'' # rev ?d0) = rev ?b @ CHR ''/'' # rev ?d0"
    by (rule dropWhile_isSlash_id) (use hdb in auto)
  have tw: "takeWhile notSlash (rev ?b @ CHR ''/'' # rev ?d0) = rev ?b"
    by (rule takeWhile_notSlash_app[OF bns])
  have dw: "dropWhile notSlash (rev ?b @ CHR ''/'' # rev ?d0) = CHR ''/'' # rev ?d0"
    by (rule dropWhile_notSlash_app[OF bns])
  have xnd: "\<forall>c\<in>set (rev x). notDot c" using x by auto
  have dwd: "dropWhile notDot (rev x @ CHR ''.'' # []) = CHR ''.'' # []"
    by (rule dropWhile_notDot_app[OF xnd])
  have rt: "(if isSlash c then ''/'' else []) @ ?d0 = d"
    by (auto simp: dd isSlash_def)
  show ?thesis
    unfolding parsePath_def Let_def scanned r tw dw
    using rt dwd by (simp add: dd isAbsolute_def)
qed

lemma parsePath_hidden_top:
  assumes x: "x \<noteq> []" "\<forall>c\<in>set x. notSlash c \<and> notDot c"
  shows "parsePath (''.'' @ x) = \<lparr>root = [], dir = [], base = ''.'' @ x, ext = [], name = ''.'' @ x\<rparr>"
proof -
  let ?b = "''.'' @ x"
  have bns: "\<forall>c\<in>set (rev ?b). notSlash c" using x by (auto simp: notSlash_def)
  have nabs: "\<not> isAbsolute ?b" by (simp add: isAbsolute_def isSlash_def)
  have hdb: "notSlash (hd (rev ?b))"
    using x by (cases x rule: rev_cases) (auto simp: notSlash_def)
  have r: "dropWhile isSlash (rev ?b) = rev ?b"
    by (rule dropWhile_isSlash_id) (use hdb in auto)
  have tw: "takeWhile notSlash (rev ?b) = rev ?b"
    by (rule takeWhile_notSlash_all[OF bns])
  have dw: "dropWhile notSlash (rev ?b) = []"
    by (rule dropWhile_notSlash_all[OF bns])
  have xnd: "\<forall>c\<in>set (rev x). notDot c" using x by auto
  have dwd: "dropWhile notDot (rev x @ CHR ''.'' # []) = CHR ''.'' # []"
    by (rule dropWhile_notDot_app[OF xnd])
  have scanned: "rev (if isAbsolute ?b then tl ?b else ?b) = rev ?b"
    using nabs by simp
  show ?thesis
    unfolding parsePath_def Let_def scanned r tw dw
    using nabs dwd by simp
qed

lemma properSegment_file: "stem \<noteq> [] \<Longrightarrow> slashFree stem \<Longrightarrow> slashFree x \<Longrightarrow> x \<noteq> [] \<Longrightarrow> properSegment (stem @ CHR ''.'' # x)"
  by (cases stem; cases x) (auto simp: properSegment_def slashFree_def notSlash_def)

lemma absSegments_normal:
  assumes "\<forall>s\<in>set xs. properSegment s"
  shows "absSegments (CHR ''/'' # joinSlash xs) = xs"
proof -
  have sf: "\<forall>s\<in>set xs. slashFree s" using assms by (auto simp: properSegment_def)
  have "splitSlash (CHR ''/'' # joinSlash xs) = [] # (if xs = [] then [[]] else xs)"
    using sf by (simp add: isSlash_def splitSlash_joinSlash)
  then show ?thesis using assms
    by (simp add: absSegments_def foldl_normalizeStep_proper del: normalizeStep.simps) simp
qed

lemma resolve_isAbsolute:
  assumes "isAbsolute w"
  shows "resolve c w = CHR ''/'' # joinSlash (absSegments w)"
proof -
  have wne: "w \<noteq> []" using assms by (auto simp: isAbsolute_def)
  have "splitSlash (w @ ''/'') = splitSlash w @ [[]]"
    using splitSlash_append[of w "[]"] by simp
  then have "foldl (normalizeStep False) [] (splitSlash (w @ ''/'')) = foldl (normalizeStep False) [] (splitSlash w)"
    by simp
  moreover have "isAbsolute (w @ ''/'')" using assms by (cases w) (auto simp: isAbsolute_def)
  ultimately show ?thesis
    unfolding resolve_def Let_def using assms wne
    by (simp add: normalizeString_def absSegments_def)
qed

lemma relative_resolved:
  assumes f: "resolve c from = CHR ''/'' # joinSlash xs"
    and t: "resolve c to = CHR ''/'' # joinSlash (xs @ ys)"
    and xs: "\<forall>s\<in>set xs. properSegment s" and ys: "\<forall>s\<in>set ys. properSegment s" "ys \<noteq> []"
  shows "relative c from to = joinSlash ys"
proof -
  have xy: "\<forall>s\<in>set (xs @ ys). properSegment s" using xs ys by auto
  have neq: "CHR ''/'' # joinSlash xs \<noteq> CHR ''/'' # joinSlash (xs @ ys)"
  proof
    assume "CHR ''/'' # joinSlash xs = CHR ''/'' # joinSlash (xs @ ys)"
    then have "pathSegments (CHR ''/'' # joinSlash xs) = pathSegments (CHR ''/'' # joinSlash (xs @ ys))"
      by simp
    then have "xs = xs @ ys"
      using pathSegments_absolute[OF xs] pathSegments_absolute[OF xy] by simp
    then show False using ys by simp
  qed
  then have ft: "from \<noteq> to" using f t by auto
  show ?thesis
    unfolding relative_def Let_def f t
    using neq ft pathSegments_absolute[OF xs] pathSegments_absolute[OF xy]
    by (simp add: commonPrefix_append)
qed

lemma join_absolute_path:
  assumes "isAbsolute w" "segs \<noteq> []" "\<forall>s\<in>set segs. properSegment s"
  shows "join [w, joinSlash segs] = CHR ''/'' # joinSlash (absSegments w @ segs)"
proof -
  have "joinSlash segs \<noteq> []" using assms(2,3)
    by (subst joinSlash_eq_Nil) (auto simp: properSegment_def)
  moreover have "w \<noteq> []" using assms(1) by (auto simp: isAbsolute_def)
  moreover have "\<forall>s\<in>set segs. s \<noteq> []" using assms(3) by (auto simp: properSegment_def)
  ultimately have "join [w, joinSlash segs] = join (w # segs)"
    using assms(2) by (simp add: join_def joinSlash_Cons filter_id_conv)
  then show ?thesis using join_absolute[OF assms] by simp
qed

lemma join_relative:
  assumes "segs \<noteq> []" "\<forall>s\<in>set segs. properSegment s"
  shows "join segs = joinSlash segs"
proof -
  have ne: "\<forall>s\<in>set segs. s \<noteq> []" and sf: "\<forall>s\<in>set segs. slashFree s"
    using assms(2) by (auto simp: properSegment_def)
  have jn: "joinSlash segs \<noteq> []" using assms(1) ne by (subst joinSlash_eq_Nil) auto
  obtain s ss where segs: "segs = s # ss" using assms(1) by (cases segs) auto
  have "s \<noteq> []" "slashFree s" using ne sf segs by auto
  then have "\<not> isSlash (hd s)" by (cases s) (auto simp: slashFree_def notSlash_def isSlash_def)
  then have nabs: "\<not> isAbsolute (joinSlash segs)"
    using \<open>s \<noteq> []\<close> unfolding segs by (cases s; cases ss) (auto simp: isAbsolute_def)
  have last: "\<not> isSlash (last (joinSlash segs))"
    using properSegment_last_notSlash[OF assms, of "[]"] by simp
  have ns: "normalizeString True (joinSlash segs) = joinSlash segs"
    using assms sf by (simp add: normalizeString_def splitSlash_joinSlash foldl_normalizeStep_proper del: normalizeStep.simps)
  show ?thesis
    unfolding join_def Let_def normalize_def
    using ne jn nabs last ns by (simp add: filter_id_conv)
qed

section \<open>Names and handlers\<close>

lemma relative_entrypoint:
  assumes w: "isAbsolute workPath" and segs: "segs \<noteq> []" "\<forall>s\<in>set segs. properSegment s"
  shows "relative c workPath (join [apiDistPath workPath, joinSlash segs]) =
           joinSlash ([''api'', ''dist'', ''functions''] @ segs)"
proof -
  let ?adf = "[''api'', ''dist'', ''functions'']"
  have adf: "\<forall>s\<in>set ?adf. properSegment s"
    by (simp add: properSegment_def slashFree_def notSlash_def)
  have ws: "\<forall>s\<in>set (absSegments workPath). properSegment s" by (rule absSegments_proper)
  have wadf: "\<forall>s\<in>set (absSegments workPath @ ?adf). properSegment s" using ws adf by auto
  have dist: "apiDistPath workPath = CHR ''/'' # joinSlash (absSegments workPath @ ?adf)"
    unfolding apiDistPath_def using join_absolute[OF w _ adf] by simp
  have abs: "isAbsolute (apiDistPath workPath)" unfolding dist by (simp add: isAbsolute_def isSlash_def)
  have fs: "join [apiDistPath workPath, joinSlash segs] =
              CHR ''/'' # joinSlash (absSegments workPath @ (?adf @ segs))"
    using join_absolute_path[OF abs segs] absSegments_normal[OF wadf] unfolding dist by simp
  have all: "\<forall>s\<in>set (?adf @ segs). properSegment s" using adf segs by auto
  have all2: "\<forall>s\<in>set (absSegments workPath @ (?adf @ segs)). properSegment s" using ws all by auto
  show ?thesis
    unfolding fs
    by (rule relative_resolved[OF resolve_isAbsolute[OF w] resolve_absolute[OF all2] ws all]) simp
qed

lemma getAWSLambdaHandler_nested:
  assumes "d \<noteq> []" "stem \<noteq> []" "slashFree stem"
  shows "getAWSLambdaHandler (d @ ''/'' @ stem @ ''.js'') ''handler'' = d @ ''/'' @ stem @ ''.handler''"
proof -
  have "parsePath (d @ ''/'' @ stem @ ''.'' @ ''js'') =
          \<lparr>root = (if isAbsolute d then ''/'' else []), dir = d,
           base = stem @ ''.'' @ ''js'', ext = ''.'' @ ''js'', name = stem\<rparr>"
    by (rule parsePath_nested) (use assms in \<open>auto simp: slashFree_def notSlash_def notDot_def\<close>)
  then show ?thesis using assms(1) by (simp add: getAWSLambdaHandler_def sep_def)
qed

lemma getAWSLambdaHandler_top:
  assumes "stem \<noteq> []" "slashFree stem"
  shows "getAWSLambdaHandler (stem @ ''.js'') ''handler'' = stem @ ''.handler''"
proof -
  have "parsePath (stem @ ''.'' @ ''js'') =
          \<lparr>root = [], dir = [], base = stem @ ''.'' @ ''js'', ext = ''.'' @ ''js'', name = stem\<rparr>"
    by (rule parsePath_top) (use assms in \<open>auto simp: slashFree_def notSlash_def notDot_def\<close>)
  then show ?thesis by (simp add: getAWSLambdaHandler_def)
qed

lemma getAWSLambdaHandler_hidden:
  assumes "d \<noteq> []"
  shows "getAWSLambdaHandler (d @ ''/'' @ ''.js'') ''handler'' = d @ ''/'' @ ''.js'' @ ''.handler''"
proof -
  have "parsePath (d @ ''/'' @ ''.'' @ ''js'') =
          \<lparr>root = (if isAbsolute d then ''/'' else []), dir = d,
           base = ''.'' @ ''js'', ext = [], name = ''.'' @ ''js''\<rparr>"
    by (rule parsePath_hidden_nested) (use assms in \<open>auto simp: notSlash_def notDot_def\<close>)
  then show ?thesis using assms by (simp add: getAWSLambdaHandler_def sep_def)
qed

lemma fileName_js:
  assumes "slashFree stem"
  shows "name (parsePath (stem @ ''.js'')) = (if stem = [] then ''.js'' else stem)"
    and "d \<noteq> [] \<Longrightarrow> name (parsePath (d @ ''/'' @ stem @ ''.js'')) = (if stem = [] then ''.js'' else stem)"
proof -
  have x: "''js'' \<noteq> []" "\<forall>c\<in>set ''js''. notSlash c \<and> notDot c"
    by (simp_all add: notSlash_def notDot_def)
  have st: "\<forall>c\<in>set stem. notSlash c" using assms by (simp add: slashFree_def)
  show "name (parsePath (stem @ ''.js'')) = (if stem = [] then ''.js'' else stem)"
  proof (cases "stem = []")
    case True
    then show ?thesis using parsePath_hidden_top[OF x] by simp
  next
    case False
    then show ?thesis using parsePath_top[OF False st x] by simp
  qed
  show "name (parsePath (d @ ''/'' @ stem @ ''.js'')) = (if stem = [] then ''.js'' else stem)" if "d \<noteq> []"
  proof (cases "stem = []")
    case True
    then show ?thesis using parsePath_hidden_nested[OF that x] by simp
  next
    case False
    then show ?thesis using parsePath_nested[OF that False st x] by simp
  qed
qed

lemma packageFunction_fields:
  assumes "packageFunction e workPath mount s (funcName, fileFsRef) = Inr ((outName, lam), s')"
  shows "outName = outputName mount funcName"
    and "handler lam = relative (cwd e) workPath (fsPath fileFsRef)"
    and "awsLambdaHandler lam = getAWSLambdaHandler (relative (cwd e) workPath (fsPath fileFsRef)) ''handler''"
  using assms unfolding packageFunction_def Let_def
  by (auto split: prod.splits sum.splits)

text \<open>Evaluations in the example project.\<close>

lemma ex_relative:
  "relative ''/work'' ''/work'' ''/work/api/dist/functions/graphql.js'' = ''api/dist/functions/graphql.js''"
  "relative ''/work'' ''/work'' ''/work/api/dist/functions/graphql/graphql.js'' = ''api/dist/functions/graphql/graphql.js''"
  "relative ''/work'' ''/work'' ''/work/api/dist/functions/locked.js'' = ''api/dist/functions/locked.js''"
  "relative ''/work'' ''/work'' ''/work/node_modules/dep.js'' = ''node_modules/dep.js''"
  "relative ''/work'' ''/work'' ''/work/node_modules/gone.js'' = ''node_modules/gone.js''"
  by code_simp+

lemma ex_join:
  "join [''/work'', ''api/dist/functions/graphql.js''] = ''/work/api/dist/functions/graphql.js''"
  "join [''/work'', ''api/dist/functions/graphql/graphql.js''] = ''/work/api/dist/functions/graphql/graphql.js''"
  "join [''/work'', ''node_modules/dep.js''] = ''/work/node_modules/dep.js''"
  by code_simp+

lemma ex_names:
  "outputName ''api'' ''graphql.js'' = ''api/graphql''"
  "outputName ''api'' ''graphql/graphql.js'' = ''api/graphql''"
  "outputName ''api'' ''locked.js'' = ''api/locked''"
  "getAWSLambdaHandler ''api/dist/functions/graphql.js'' ''handler'' = ''api/dist/functions/graphql.handler''"
  "getAWSLambdaHandler ''api/dist/functions/graphql/graphql.js'' ''handler'' = ''api/dist/functions/graphql/graphql.handler''"
  "sourceFile ''api/dist/functions/graphql.js'' = ''api/src/functions/graphql.js''"
  "sourceFile ''api/dist/functions/graphql/graphql.js'' = ''api/src/functions/graphql/graphql.js''"
  "replaceFirst ''Error: '' ''Warning: '' ''Error: unresolved import'' = ''Warning: unresolved import''"
  by code_simp+

lemmas ex_defs =
  packageFunction_def exampleRef_def exampleTrace_def readFile_def readFileCatch_def exampleEnv_def
  initialState_def exampleRead_def exampleStat_def exampleFiles_def Let_def
  ex_relative ex_join ex_names

text \<open>
  Claim C3, as the code has it. The function files are those the two globs return:
  \<^verbatim>\<open>b.js\<close> at the top level and \<^verbatim>\<open>d/b.js\<close> one directory down, \<open>b\<close> without slash.
  The output name of either is the API directory joined with \<open>b\<close>, the name of the
  file with its \<^verbatim>\<open>.js\<close> extension removed; for the file called just \<^verbatim>\<open>.js\<close>, which has
  no extension to remove, it is the API directory joined with \<^verbatim>\<open>.js\<close>. The directory
  \<open>d\<close> is not part of the output name, so a file at the top level and a file of the
  same name one directory down get the same one. The API directory is the configured
  proxy path without its leading slash, and \<^verbatim>\<open>api\<close> when none is configured; with this
  default the output name of \<^verbatim>\<open>stem.js\<close> is \<^verbatim>\<open>api/stem\<close>.
\<close>

theorem outputName_drops_directory:
  assumes "slashFree stem"
  shows "outputName (apiDir apiProxyPath) (stem @ ''.js'') =
           join [apiDir apiProxyPath, if stem = [] then ''.js'' else stem] \<and>
         (\<forall>d. d \<noteq> [] \<longrightarrow>
            outputName (apiDir apiProxyPath) (d @ ''/'' @ stem @ ''.js'') =
              join [apiDir apiProxyPath, if stem = [] then ''.js'' else stem]) \<and>
         apiDir None = ''api'' \<and>
         (\<forall>p. apiDir (Some (CHR ''/'' # p)) = p) \<and>
         (\<forall>p. \<not> isAbsolute p \<longrightarrow> apiDir (Some p) = p) \<and>
         (properSegment stem \<longrightarrow>
            (\<forall>d. d \<noteq> [] \<longrightarrow> outputName (apiDir None) (d @ ''/'' @ stem @ ''.js'') = ''api/'' @ stem) \<and>
            outputName (apiDir None) (stem @ ''.js'') = ''api/'' @ stem)"
proof (intro conjI impI allI)
  show top: "outputName mount (stem @ ''.js'') = join [mount, if stem = [] then ''.js'' else stem]" for mount
    using fileName_js(1)[OF assms] by (simp add: outputName_def)
  show nested: "outputName mount (d @ ''/'' @ stem @ ''.js'') = join [mount, if stem = [] then ''.js'' else stem]"
    if "d \<noteq> []" for d mount
    using fileName_js(2)[OF assms that] by (simp add: outputName_def)
  show "apiDir None = ''api''" by (simp add: apiDir_def)
  show "apiDir (Some (CHR ''/'' # p)) = p" for p by (simp add: apiDir_def isSlash_def)
  show "apiDir (Some p) = p" if "\<not> isAbsolute p" for p
    using that by (cases p) (simp_all add: apiDir_def isAbsolute_def)
  {
    assume ps: "properSegment stem"
    have "\<forall>s\<in>set [''api'', stem]. properSegment s"
      using ps by (simp add: properSegment_def slashFree_def notSlash_def)
    then have "join [''api'', stem] = joinSlash [''api'', stem]" by (intro join_relative) simp_all
    then have j: "join [apiDir None, stem] = ''api/'' @ stem" by (simp add: apiDir_def)
    have ne: "stem \<noteq> []" using ps by (simp add: properSegment_def)
    show "outputName (apiDir None) (stem @ ''.js'') = ''api/'' @ stem"
      using top[of "apiDir None"] j ne by simp
    show "outputName (apiDir None) (d @ ''/'' @ stem @ ''.js'') = ''api/'' @ stem" if "d \<noteq> []" for d
      using nested[OF that, of "apiDir None"] j ne by simp
  }
qed

text \<open>
  Claim C3, instances: \<^verbatim>\<open>bazinga.js\<close> and \<^verbatim>\<open>bazinga/bazinga.js\<close> under the default API
  directory, and the file \<^verbatim>\<open>.js\<close> under the proxy path \<^verbatim>\<open>/.redwood/functions\<close>.
\<close>

theorem outputName_drops_directory_witness:
  "outputName (apiDir None) ''bazinga.js'' = ''api/bazinga'' \<and>
   outputName (apiDir None) ''bazinga/bazinga.js'' = ''api/bazinga'' \<and>
   apiDir (Some ''/.redwood/functions'') = ''.redwood/functions'' \<and>
   apiDir (Some ''fn'') = ''fn'' \<and>
   outputName (apiDir (Some ''/.redwood/functions'')) ''.js'' = ''.redwood/functions/.js''"
proof -
  have sf: "slashFree ''bazinga''" "slashFree []" by (simp_all add: slashFree_def notSlash_def)
  have ps: "properSegment ''bazinga''" by (simp add: properSegment_def slashFree_def notSlash_def)
  note a = outputName_drops_directory[OF sf(1), of None]
  note b = outputName_drops_directory[OF sf(2), of "Some ''/.redwood/functions''"]
  have 1: "outputName (apiDir None) (''bazinga'' @ ''.js'') = ''api/'' @ ''bazinga''"
    using a ps by blast
  have 2: "outputName (apiDir None) (''bazinga'' @ ''/'' @ ''bazinga'' @ ''.js'') = ''api/'' @ ''bazinga''"
    using a ps by blast
  have 3: "apiDir (Some (CHR ''/'' # ''.redwood/functions'')) = ''.redwood/functions''"
    using a by blast
  have "\<not> isAbsolute ''fn''" by (simp add: isAbsolute_def isSlash_def)
  then have 4: "apiDir (Some ''fn'') = ''fn''" using a by blast
  have "outputName (apiDir (Some ''/.redwood/functions'')) ([] @ ''.js'') =
          join [apiDir (Some ''/.redwood/functions''), if ([] :: string) = [] then ''.js'' else []]"
    using b by blast
  moreover have "join [''.redwood/functions'', ''.js''] = ''.redwood/functions/.js''" by code_simp
  ultimately have 5: "outputName (apiDir (Some ''/.redwood/functions'')) ''.js'' = ''.redwood/functions/.js''"
    using 3 by simp
  show ?thesis using 1 2 3 4 5 by simp
qed

text \<open>
  Claim C3 as stated fails: the nested function \<^verbatim>\<open>bazinga/bazinga.js\<close> gets the output
  name \<^verbatim>\<open>api/bazinga\<close>, while the API directory joined with its relative path without
  extension is \<^verbatim>\<open>api/bazinga/bazinga\<close>.
\<close>

theorem outputName_nested_counterexample:
  "outputName (apiDir None) ''bazinga/bazinga.js'' = ''api/bazinga'' \<and>
   join [apiDir None, ''bazinga/bazinga''] = ''api/bazinga/bazinga''"
  by code_simp

text \<open>
  Claim C4, as the code has it. Take a function file \<^verbatim>\<open>b.js\<close> that the glob found
  under \<^verbatim>\<open>api/dist/functions\<close> of an absolute work path, in any directories below it,
  and that has been packaged. The \<^verbatim>\<open>handler\<close> field of its lambda is the path of the
  file relative to the work path, build-output directory included. Its handler
  reference is that path with \<^verbatim>\<open>.handler\<close> in place of the extension \<^verbatim>\<open>.js\<close>; for the
  file called just \<^verbatim>\<open>.js\<close>, which has no extension, \<^verbatim>\<open>.handler\<close> is appended to the
  whole path.
\<close>

theorem awsLambdaHandler_keeps_directory:
  assumes "isAbsolute workPath"
    and "\<forall>s\<in>set ds. properSegment s" and "slashFree stem"
    and "funcName = joinSlash (ds @ [stem @ ''.js''])"
    and "fsPath fileFsRef = join [apiDistPath workPath, funcName]"
    and "packageFunction e workPath mount s (funcName, fileFsRef) = Inr ((outName, lam), s')"
  shows "awsLambdaHandler lam =
           joinSlash ([''api'', ''dist'', ''functions''] @ ds @ [if stem = [] then ''.js'' else stem]) @ ''.handler'' \<and>
         handler lam = joinSlash ([''api'', ''dist'', ''functions''] @ ds @ [stem @ ''.js''])"
proof -
  let ?adf = "[''api'', ''dist'', ''functions'']"
  have fileSeg: "properSegment (stem @ ''.js'')"
  proof (cases "stem = []")
    case True
    then show ?thesis by (simp add: properSegment_def slashFree_def notSlash_def)
  next
    case False
    then show ?thesis
      using properSegment_file[OF False assms(3), of "''js''"] by (simp add: slashFree_def notSlash_def)
  qed
  have segs: "\<forall>s\<in>set (ds @ [stem @ ''.js'']). properSegment s" using assms(2) fileSeg by auto
  have rel: "relative (cwd e) workPath (fsPath fileFsRef) = joinSlash (?adf @ ds @ [stem @ ''.js''])"
    unfolding assms(4,5) by (rule relative_entrypoint[OF assms(1) _ segs]) simp
  have j1: "joinSlash ((?adf @ ds) @ [stem @ ''.js'']) = joinSlash (?adf @ ds) @ ''/'' @ stem @ ''.js''"
    by (subst joinSlash_snoc) simp_all
  have j2: "joinSlash ((?adf @ ds) @ [t]) = joinSlash (?adf @ ds) @ ''/'' @ t" for t
    by (subst joinSlash_snoc) simp_all
  have ne: "joinSlash (?adf @ ds) \<noteq> []"
    by (cases ds) simp_all
  have "getAWSLambdaHandler (joinSlash (?adf @ ds @ [stem @ ''.js''])) ''handler'' =
          joinSlash (?adf @ ds @ [if stem = [] then ''.js'' else stem]) @ ''.handler''"
  proof (cases "stem = []")
    case True
    then show ?thesis
      using getAWSLambdaHandler_hidden[OF ne] j1 j2[of "''.js''"] by simp
  next
    case False
    then show ?thesis
      using getAWSLambdaHandler_nested[OF ne False assms(3)] j1 j2[of stem] by simp
  qed
  then show ?thesis using packageFunction_fields[OF assms(6)] rel by simp
qed

text \<open>
  Claim C4, an instance: the function \<^verbatim>\<open>graphql.js\<close> of the example project.
\<close>

theorem awsLambdaHandler_keeps_directory_witness:
  "\<exists>lam s'. packageFunction exampleEnv ''/work'' ''api'' initialState
       (''graphql.js'', exampleRef ''/work/api/dist/functions/graphql.js'') = Inr ((''api/graphql'', lam), s') \<and>
     awsLambdaHandler lam = ''api/dist/functions/graphql.handler'' \<and>
     handler lam = ''api/dist/functions/graphql.js''"
proof -
  obtain lam s' where lam: "packageFunction exampleEnv ''/work'' ''api'' initialState
       (''graphql.js'', exampleRef ''/work/api/dist/functions/graphql.js'') = Inr ((''api/graphql'', lam), s')"
    by (simp add: ex_defs)
  have "join [apiDistPath ''/work'', ''graphql.js''] = ''/work/api/dist/functions/graphql.js''"
    by code_simp
  then have fs: "fsPath (exampleRef ''/work/api/dist/functions/graphql.js'') = join [apiDistPath ''/work'', ''graphql.js'']"
    by (simp add: exampleRef_def)
  have "awsLambdaHandler lam =
          joinSlash ([''api'', ''dist'', ''functions''] @ [] @ [if ''graphql'' = [] then ''.js'' else ''graphql'']) @ ''.handler'' \<and>
        handler lam = joinSlash ([''api'', ''dist'', ''functions''] @ [] @ [''graphql'' @ ''.js''])"
    by (rule awsLambdaHandler_keeps_directory[where workPath="''/work''" and funcName="''graphql.js''"
          and fileFsRef="exampleRef ''/work/api/dist/functions/graphql.js''", OF _ _ _ _ fs lam])
       (simp_all add: isAbsolute_def isSlash_def slashFree_def notSlash_def)
  then show ?thesis using lam by simp
qed

text \<open>
  Claim C4 as stated fails: the function built at \<^verbatim>\<open>functions/graphql.js\<close> gets the
  handler reference \<^verbatim>\<open>api/dist/functions/graphql.handler\<close>, not \<^verbatim>\<open>graphql.handler\<close>.
\<close>

theorem awsLambdaHandler_counterexample:
  "(case packageFunction exampleEnv ''/work'' ''api'' initialState
           (''graphql.js'', exampleRef ''/work/api/dist/functions/graphql.js'') of
      Inl err \<Rightarrow> None
    | Inr ((outName, lam), s') \<Rightarrow> Some (awsLambdaHandler lam)) = Some ''api/dist/functions/graphql.handler''"
  by (simp add: ex_defs)

section \<open>The cached reader\<close>

lemma readFile_cached:
  "sourceCache s (relative (cwd e) workPath path) = Some v \<Longrightarrow>
     readFile e workPath s path = (Inr (map_option (bufferToString e) v), s)"
  by (cases v) (simp_all add: readFile_def)

lemma readFile_fresh:
  assumes "sourceCache s (relative (cwd e) workPath path) = None"
  shows "readFile e workPath s path =
    (case readFileSync e path of
       Inl err \<Rightarrow> readFileCatch (relative (cwd e) workPath path) (s\<lparr>fsCalls := fsCalls s @ [ReadFileSync path]\<rparr>) err
     | Inr src \<Rightarrow>
        (case lstatSync e path of
           Inl err \<Rightarrow> readFileCatch (relative (cwd e) workPath path)
                        (s\<lparr>fsCalls := fsCalls s @ [ReadFileSync path, LstatSync path]\<rparr>) err
         | Inr m \<Rightarrow>
             (Inr (Some (bufferToString e src)),
              s\<lparr>fsCalls := fsCalls s @ [ReadFileSync path, LstatSync path],
                fsCache := (fsCache s)(relative (cwd e) workPath path \<mapsto>
                   (if isSymbolicLink e m then FsRef \<lparr>fsPath = path, mode = m, contentType = None\<rparr>
                    else Blob \<lparr>data = src, blobMode = m\<rparr>)),
                sourceCache := (sourceCache s)(relative (cwd e) workPath path \<mapsto> Some src)\<rparr>)))"
  using assms by (simp add: readFile_def Let_def split: sum.splits)

lemma readFileCatch_result:
  "readFileCatch rel s err = (x, s') \<Longrightarrow>
     (notFound err \<and> x = Inr None \<and> s' = s\<lparr>sourceCache := (sourceCache s)(rel \<mapsto> None)\<rparr>) \<or>
     (\<not> notFound err \<and> x = Inl err \<and> s' = s)"
  by (auto simp: readFileCatch_def notFound_def split: if_splits)

lemma readFile_grows:
  assumes "readFile e workPath s path = (x, s')"
  shows "sourceCache s \<subseteq>\<^sub>m sourceCache s'"
proof (cases "sourceCache s (relative (cwd e) workPath path)")
  case (Some v)
  then show ?thesis using assms readFile_cached[OF Some] by simp
next
  case None
  show ?thesis using assms unfolding readFile_fresh[OF None]
    by (auto simp: map_le_def None dest!: readFileCatch_result split: sum.splits)
qed

lemma readFile_remembers:
  assumes "readFile e workPath s path = (Inr r, s')"
  shows "\<exists>v. sourceCache s' (relative (cwd e) workPath path) = Some v \<and> r = map_option (bufferToString e) v"
proof (cases "sourceCache s (relative (cwd e) workPath path)")
  case (Some v)
  then show ?thesis using assms readFile_cached[OF Some] by simp
next
  case None
  show ?thesis using assms unfolding readFile_fresh[OF None]
    by (auto dest!: readFileCatch_result split: sum.splits)
qed

lemma forwardWarnings_sourceCache: "sourceCache (forwardWarnings ws s) = sourceCache s"
  by (induction ws arbitrary: s) (simp_all split: option.split)

lemma later_grows: "later e workPath s s' \<Longrightarrow> sourceCache s \<subseteq>\<^sub>m sourceCache s'"
proof (induction rule: later.induct)
  case (later_read s s' path x s'')
  then show ?case using readFile_grows map_le_trans by blast
qed (simp_all add: forwardWarnings_sourceCache)





lemma readFile_again:
  assumes first: "readFile e workPath s0 path = (Inr r, s1)"
    and "later e workPath s1 s2"
  shows "readFile e workPath s2 path = (Inr r, s2)"
proof -
  obtain v where v: "sourceCache s1 (relative (cwd e) workPath path) = Some v"
    and r: "r = map_option (bufferToString e) v"
    using readFile_remembers[OF first] by blast
  have "sourceCache s1 \<subseteq>\<^sub>m sourceCache s2" using assms(2) by (rule later_grows)
  then have "sourceCache s2 (relative (cwd e) workPath path) = Some v"
    using v by (auto simp: map_le_def dom_def)
  then show ?thesis using readFile_cached r by simp
qed


lemma ex_relative2:
  "relative ''/work'' ''/work'' ''/work/api/dist/functions/auth.js'' = ''api/dist/functions/auth.js''"
  by code_simp

lemmas ex_reader =
  readFile_def readFileCatch_def exampleEnv_def initialState_def exampleRead_def exampleStat_def
  exampleFiles_def Let_def ex_relative ex_relative2


lemma accessFailure_fresh:
  assumes fresh: "sourceCache s (relative (cwd e) workPath path) = None"
    and fail: "accessFailure e path = Some err"
  shows "\<exists>calls. readFile e workPath s path =
           readFileCatch (relative (cwd e) workPath path) (s\<lparr>fsCalls := fsCalls s @ calls\<rparr>) err"
  using fail unfolding readFile_fresh[OF fresh] accessFailure_def
  by (auto split: sum.splits)

lemma packageAll_append:
  "packageAll e workPath mount (xs @ ys) outs s =
     (case packageAll e workPath mount xs outs s of
        Inl err \<Rightarrow> Inl err
      | Inr (outs1, s1) \<Rightarrow> packageAll e workPath mount ys outs1 s1)"
  by (induction xs arbitrary: outs s) (auto split: sum.splits prod.splits)

lemma packageAll_fails:
  "packageFunction e workPath mount s entry = Inl err \<Longrightarrow>
     packageAll e workPath mount (entry # entries) outs s = Inl err"
  by simp

lemma runTrace_passesOn:
  assumes "readsDuring e workPath t sa path s" and "passesOn t"
    and "readFile e workPath s path = (Inl err, s')"
  shows "runTrace e workPath t sa = (Inl err, s')"
  using assms
proof (induction rule: readsDuring.induct)
  case (reads_here path k s)
  then show ?case by simp
next
  case (reads_there s p r s1 k path s0)
  then show ?case by simp
qed

lemma packageFunction_trace_fails:
  "runTrace e workPath (nodeFileTrace e [fsPath ref]) s = (Inl err, s') \<Longrightarrow>
     packageFunction e workPath mount s (funcName, ref) = Inl err"
  by (simp add: packageFunction_def Let_def)

text \<open>
  Claim C9, as the code has it. Let the reader be called on a path it has not looked
  up, and let the file system fail on it. A failure with code \<^verbatim>\<open>ENOENT\<close> or \<^verbatim>\<open>EISDIR\<close>
  is returned as not found and cached as such, and a read of the path at any later
  point of the run returns not found again without changing the state, so without a
  call to the file system. Any other failure is thrown by the reader, which caches
  nothing. What becomes of the exception is up to the tracer: when it happens while a
  function is traced by a tracer that passes exceptions of the reader on, the run
  fails with that error and returns no manifest, whatever functions were packaged
  before.
\<close>

theorem pathCache_failures:
  assumes fresh: "sourceCache s (relative (cwd e) workPath path) = None"
    and fail: "accessFailure e path = Some err"
  shows "(notFound err \<longrightarrow>
           (\<exists>s'. readFile e workPath s path = (Inr None, s') \<and>
                 sourceCache s' (relative (cwd e) workPath path) = Some None \<and>
                 (\<forall>s''. later e workPath s' s'' \<longrightarrow> readFile e workPath s'' path = (Inr None, s'')))) \<and>
         (\<not> notFound err \<longrightarrow>
           (\<exists>s'. readFile e workPath s path = (Inl err, s') \<and> sourceCache s' = sourceCache s) \<and>
           (\<forall>apiProxyPath webDistFiles topLevel oneLevelDeep pre funcName (ref :: FileFsRef) post outs sa.
              functionFiles topLevel oneLevelDeep = pre @ (funcName, ref) # post \<and>
              packageAll e workPath (apiDir apiProxyPath) pre Map.empty initialState = Inr (outs, sa) \<and>
              passesOn (nodeFileTrace e [fsPath ref]) \<and>
              readsDuring e workPath (nodeFileTrace e [fsPath ref]) sa path s \<longrightarrow>
              build e workPath apiProxyPath webDistFiles topLevel oneLevelDeep = Inl err))"
proof (intro conjI impI)
  obtain calls where rf: "readFile e workPath s path =
      readFileCatch (relative (cwd e) workPath path) (s\<lparr>fsCalls := fsCalls s @ calls\<rparr>) err"
    using accessFailure_fresh[OF fresh fail] by blast
  {
    assume nf: "notFound err"
    let ?s' = "s\<lparr>fsCalls := fsCalls s @ calls, sourceCache := (sourceCache s)(relative (cwd e) workPath path \<mapsto> None)\<rparr>"
    have r: "readFile e workPath s path = (Inr None, ?s')"
      using nf rf by (simp add: readFileCatch_def notFound_def)
    have "\<forall>s''. later e workPath ?s' s'' \<longrightarrow> readFile e workPath s'' path = (Inr None, s'')"
      using readFile_again[OF r] by blast
    then show "\<exists>s'. readFile e workPath s path = (Inr None, s') \<and>
                 sourceCache s' (relative (cwd e) workPath path) = Some None \<and>
                 (\<forall>s''. later e workPath s' s'' \<longrightarrow> readFile e workPath s'' path = (Inr None, s''))"
      using r by (intro exI[of _ ?s']) simp
  }
  {
    assume fatal: "\<not> notFound err"
    have r: "readFile e workPath s path = (Inl err, s\<lparr>fsCalls := fsCalls s @ calls\<rparr>)"
      using fatal rf by (simp add: readFileCatch_def notFound_def)
    then show "\<exists>s'. readFile e workPath s path = (Inl err, s') \<and> sourceCache s' = sourceCache s"
      by simp
    show "\<forall>apiProxyPath webDistFiles topLevel oneLevelDeep pre funcName (ref :: FileFsRef) post outs sa.
              functionFiles topLevel oneLevelDeep = pre @ (funcName, ref) # post \<and>
              packageAll e workPath (apiDir apiProxyPath) pre Map.empty initialState = Inr (outs, sa) \<and>
              passesOn (nodeFileTrace e [fsPath ref]) \<and>
              readsDuring e workPath (nodeFileTrace e [fsPath ref]) sa path s \<longrightarrow>
              build e workPath apiProxyPath webDistFiles topLevel oneLevelDeep = Inl err"
    proof (intro allI impI)
      fix apiProxyPath webDistFiles topLevel oneLevelDeep pre funcName and ref :: FileFsRef and post outs sa
      assume h: "functionFiles topLevel oneLevelDeep = pre @ (funcName, ref) # post \<and>
              packageAll e workPath (apiDir apiProxyPath) pre Map.empty initialState = Inr (outs, sa) \<and>
              passesOn (nodeFileTrace e [fsPath ref]) \<and>
              readsDuring e workPath (nodeFileTrace e [fsPath ref]) sa path s"
      have "runTrace e workPath (nodeFileTrace e [fsPath ref]) sa = (Inl err, s\<lparr>fsCalls := fsCalls s @ calls\<rparr>)"
        using runTrace_passesOn[OF _ _ r] h by blast
      then have "packageFunction e workPath (apiDir apiProxyPath) sa (funcName, ref) = Inl err"
        by (rule packageFunction_trace_fails)
      then show "build e workPath apiProxyPath webDistFiles topLevel oneLevelDeep = Inl err"
        using h by (simp add: build_def packageAll_append)
    qed
  }
qed

text \<open>
  Claim C9, two instances in the example project: a missing file; and a function file
  that cannot be opened, which ends the run after \<^verbatim>\<open>graphql.js\<close> has been packaged.
\<close>

theorem pathCache_failures_witness:
  "(\<exists>s'. readFile exampleEnv ''/work'' initialState ''/work/node_modules/gone.js'' = (Inr None, s') \<and>
         sourceCache s' ''node_modules/gone.js'' = Some None \<and>
         readFile exampleEnv ''/work'' s' ''/work/node_modules/gone.js'' = (Inr None, s')) \<and>
   (\<exists>s'. readFile exampleEnv ''/work'' initialState ''/work/api/dist/functions/locked.js'' =
           (Inl (Error (Some ''EACCES'') ''permission denied''), s')) \<and>
   build exampleEnv ''/work'' None []
     [(''graphql.js'', exampleRef ''/work/api/dist/functions/graphql.js''),
      (''locked.js'', exampleRef ''/work/api/dist/functions/locked.js'')] [] =
     Inl (Error (Some ''EACCES'') ''permission denied'')"
proof -
  let ?gone = "''/work/node_modules/gone.js''" and ?locked = "''/work/api/dist/functions/locked.js''"
  let ?enoent = "Error (Some ''ENOENT'') ''no such file''" and ?eacces = "Error (Some ''EACCES'') ''permission denied''"
  let ?g = "(''graphql.js'', exampleRef ''/work/api/dist/functions/graphql.js'')"
  let ?l = "(''locked.js'', exampleRef ?locked)"
  have g1: "sourceCache initialState (relative (cwd exampleEnv) ''/work'' ?gone) = None"
    by (simp add: initialState_def)
  have g2: "accessFailure exampleEnv ?gone = Some ?enoent"
    and l2: "accessFailure exampleEnv ?locked = Some ?eacces"
    by (simp_all add: accessFailure_def exampleEnv_def exampleRead_def exampleFiles_def)
  have nf: "notFound ?enoent" "\<not> notFound ?eacces" by (simp_all add: notFound_def)
  have rel: "relative (cwd exampleEnv) ''/work'' ?gone = ''node_modules/gone.js''"
    "relative (cwd exampleEnv) ''/work'' ?locked = ''api/dist/functions/locked.js''"
    by (simp_all add: exampleEnv_def ex_relative)
  have ff: "functionFiles [?g, ?l] [] = [?g] @ (''locked.js'', exampleRef ?locked) # []"
    by (simp add: functionFiles_def objSpread_def)
  obtain outs sa where pa: "packageAll exampleEnv ''/work'' (apiDir None) [?g] Map.empty initialState = Inr (outs, sa)"
    and c: "sourceCache sa ''api/dist/functions/locked.js'' = None"
    by (simp add: ex_defs apiDir_def)
  have l1: "sourceCache sa (relative (cwd exampleEnv) ''/work'' ?locked) = None"
    using c rel by simp
  obtain k where t: "nodeFileTrace exampleEnv [fsPath (exampleRef ?locked)] = ReadFile ?locked k"
    by (simp add: exampleEnv_def exampleRef_def exampleTrace_def)
  have po: "passesOn (nodeFileTrace exampleEnv [fsPath (exampleRef ?locked)])"
    by (simp add: exampleEnv_def exampleRef_def exampleTrace_def split: sum.split)
  have rd: "readsDuring exampleEnv ''/work'' (nodeFileTrace exampleEnv [fsPath (exampleRef ?locked)])
              sa ?locked sa"
    unfolding t by (rule reads_here)
  from pathCache_failures[OF g1 g2] nf(1)
  obtain s' where a: "readFile exampleEnv ''/work'' initialState ?gone = (Inr None, s')"
    and b: "sourceCache s' (relative (cwd exampleEnv) ''/work'' ?gone) = Some None"
    and c: "\<forall>s''. later exampleEnv ''/work'' s' s'' \<longrightarrow> readFile exampleEnv ''/work'' s'' ?gone = (Inr None, s'')"
    by blast
  have c': "readFile exampleEnv ''/work'' s' ?gone = (Inr None, s')" using c later_refl by blast
  have d: "\<exists>s'. readFile exampleEnv ''/work'' initialState ?locked = (Inl ?eacces, s')"
    by (simp add: ex_reader)
  note fatal = pathCache_failures[OF l1 l2, THEN conjunct2, rule_format, OF nf(2), THEN conjunct2, rule_format]
  have "build exampleEnv ''/work'' None [] [?g, ?l] [] = Inl ?eacces"
    by (rule fatal[OF conjI[OF ff conjI[OF pa conjI[OF po rd]]]])
  then show ?thesis using a b c' d rel by auto
qed

section \<open>Warnings\<close>

lemma stacks_Cons:
  "stacks (w # ws) =
     (case stack w of None \<Rightarrow> stacks ws | Some st \<Rightarrow> if st \<noteq> [] then st # stacks ws else stacks ws)"
  by (simp add: stacks_def List.map_filter_simps split: option.split)

lemma forwardWarnings_eq:
  "forwardWarnings ws s =
     s\<lparr>debugLog := debugLog s @ map (replaceFirst ''Error: '' ''Warning: '') (stacks ws)\<rparr>"
proof (induction ws arbitrary: s)
  case Nil
  show ?case by (simp add: stacks_def List.map_filter_simps)
next
  case (Cons w ws)
  show ?case by (simp add: Cons.IH stacks_Cons split: option.split)
qed













section \<open>The files of a lambda\<close>




lemma forwardWarnings_fsCache:
  "forwardWarnings ws (s\<lparr>fsCache := c\<rparr>) = (forwardWarnings ws s)\<lparr>fsCache := c\<rparr>"
  by (simp add: forwardWarnings_eq)




lemma ex_join2:
  "join [''/work'', ''api/dist/functions/auth.js''] = ''/work/api/dist/functions/auth.js''"
  by code_simp

lemma ex_names2:
  "outputName ''api'' ''auth.js'' = ''api/auth''"
  "getAWSLambdaHandler ''api/dist/functions/auth.js'' ''handler'' = ''api/dist/functions/auth.handler''"
  "sourceFile ''api/dist/functions/auth.js'' = ''api/src/functions/auth.js''"
  by code_simp+

lemmas ex_all = ex_defs ex_relative2 ex_join2 ex_names2



section \<open>The manifest\<close>




lemma build_result:
  assumes "build e workPath apiProxyPath webDistFiles topLevel oneLevelDeep = Inr m"
  shows "\<exists>lambdaOutputs s.
           packageAll e workPath (apiDir apiProxyPath) (functionFiles topLevel oneLevelDeep) Map.empty initialState =
             Inr (lambdaOutputs, s) \<and>
           outputs m = mergeOutputs (staticOutputs e workPath webDistFiles) lambdaOutputs \<and>
           transformError (getTransformedRoutes e (nowConfig e workPath)) = None \<and>
           routes m = transformedRoutes (getTransformedRoutes e (nowConfig e workPath))"
  using assms unfolding build_def Let_def
  by (auto split: sum.splits prod.splits option.splits)

lemma ex_static:
  "ext (parsePath ''/work/web/dist/index.html'') = ''.html''"
  "relative ''/work'' (webDistPath ''/work'')
     (join [dir (parsePath ''/work/web/dist/index.html''), basename ''index.html'' ''.html'']) = ''index''"
  "ext (parsePath ''/work/web/dist/api/graphql'') = []"
  "join [webDistPath ''/work'', ''200.html''] = ''/work/web/dist/200.html''"
  by code_simp+

lemma ex_names3:
  "outputName ''api'' ''broken.js'' = ''api/broken''"
  "getAWSLambdaHandler ''api/dist/functions/broken.js'' ''handler'' = ''api/dist/functions/broken.handler''"
  "sourceFile ''api/dist/functions/broken.js'' = ''api/src/functions/broken.js''"
  "relative ''/work'' ''/work'' ''/work/api/dist/functions/broken.js'' = ''api/dist/functions/broken.js''"
  "join [''/work'', ''api/dist/functions/broken.js''] = ''/work/api/dist/functions/broken.js''"
  by code_simp+

lemmas ex_build =
  build_def functionFiles_def objSpread_def staticOutputs_def staticKey_def staticValue_def
  mergeOutputs_def nowConfig_def fallbackHtmlPage_def ruleTransformation_def apiDir_def
  List.map_filter_simps ex_static ex_names3 ex_all






text \<open>
  Claim C2, as the code has it. When the packaging of a function fails, whatever the
  cause, the run fails with that error: the functions before it have been packaged in
  vain, those after it are not packaged, and no manifest is returned. (The source path
  of a function is the relative entrypoint with its first \<^verbatim>\<open>/dist/\<close> replaced by
  \<^verbatim>\<open>/src/\<close>, a total function: deriving it cannot fail.)
\<close>

theorem failure_aborts_run:
  assumes "functionFiles topLevel oneLevelDeep = pre @ entry # post"
    and "packageAll e workPath (apiDir apiProxyPath) pre Map.empty initialState = Inr (lambdaOutputs, s)"
    and "packageFunction e workPath (apiDir apiProxyPath) s entry = Inl err"
  shows "build e workPath apiProxyPath webDistFiles topLevel oneLevelDeep = Inl err"
  using assms by (simp add: build_def packageAll_append)



text \<open>
  Claim C2, an instance: in the example project \<^verbatim>\<open>graphql.js\<close> is packaged, then the
  lookup of the configuration fails for \<^verbatim>\<open>broken.js\<close>.
\<close>

theorem failure_aborts_run_witness:
  "build exampleEnv ''/work'' None []
     [(''graphql.js'', exampleRef ''/work/api/dist/functions/graphql.js''),
      (''broken.js'', exampleRef ''/work/api/dist/functions/broken.js'')] [] =
   Inl (Error None ''invalid function configuration'')"
proof -
  let ?g = "(''graphql.js'', exampleRef ''/work/api/dist/functions/graphql.js'')"
  let ?b = "(''broken.js'', exampleRef ''/work/api/dist/functions/broken.js'')"
  have ff: "functionFiles [?g, ?b] [] = [?g] @ ?b # []"
    by (simp add: functionFiles_def objSpread_def)
  obtain lambdaOutputs s where pa: "packageAll exampleEnv ''/work'' (apiDir None) [?g] Map.empty initialState = Inr (lambdaOutputs, s)"
    and c: "sourceCache s ''api/dist/functions/broken.js'' = None"
      "sourceCache s ''node_modules/dep.js'' = Some (Some ''dep'')"
      "sourceCache s ''node_modules/gone.js'' = Some None"
    by (simp add: ex_build)
  have pf: "packageFunction exampleEnv ''/work'' (apiDir None) s ?b = Inl (Error None ''invalid function configuration'')"
    using c by (simp add: ex_build)
  show ?thesis by (rule failure_aborts_run[OF ff pa pf])
qed

text \<open>
  Claim C2 as stated fails: \<^verbatim>\<open>graphql.js\<close> alone is packaged without error, but together
  with \<^verbatim>\<open>broken.js\<close>, whose packaging fails, the run returns the error and no
  manifest.
\<close>

theorem failure_aborts_run_counterexample:
  "build exampleEnv ''/work'' None []
     [(''broken.js'', exampleRef ''/work/api/dist/functions/broken.js''),
      (''graphql.js'', exampleRef ''/work/api/dist/functions/graphql.js'')] [] =
     Inl (Error None ''invalid function configuration'') \<and>
   \<not> isl (build exampleEnv ''/work'' None []
     [(''graphql.js'', exampleRef ''/work/api/dist/functions/graphql.js'')] [])"
  by (simp add: ex_build)

lemma ex_names4:
  "getAWSLambdaHandler ''api/dist/functions/locked.js'' ''handler'' = ''api/dist/functions/locked.handler''"
  "sourceFile ''api/dist/functions/locked.js'' = ''api/src/functions/locked.js''"
  by code_simp+

text \<open>
  Claim C9 as stated fails: in the example project, with the tracer that catches what
  the reader throws, the function file \<^verbatim>\<open>locked.js\<close> cannot be opened, the reader
  throws the access failure, which is not one of a missing file, and the run goes on
  and returns a manifest.
\<close>

theorem pathCache_failures_counterexample:
  "fst (readFile (exampleEnv\<lparr>nodeFileTrace := swallowingTrace\<rparr>) ''/work'' initialState
          ''/work/api/dist/functions/locked.js'') = Inl (Error (Some ''EACCES'') ''permission denied'') \<and>
   \<not> notFound (Error (Some ''EACCES'') ''permission denied'') \<and>
   readsDuring (exampleEnv\<lparr>nodeFileTrace := swallowingTrace\<rparr>) ''/work''
     (nodeFileTrace (exampleEnv\<lparr>nodeFileTrace := swallowingTrace\<rparr>)
        [fsPath (exampleRef ''/work/api/dist/functions/locked.js'')])
     initialState ''/work/api/dist/functions/locked.js'' initialState \<and>
   \<not> isl (build (exampleEnv\<lparr>nodeFileTrace := swallowingTrace\<rparr>) ''/work'' None []
            [(''locked.js'', exampleRef ''/work/api/dist/functions/locked.js'')] [])"
proof (intro conjI)
  show "fst (readFile (exampleEnv\<lparr>nodeFileTrace := swallowingTrace\<rparr>) ''/work'' initialState
          ''/work/api/dist/functions/locked.js'') = Inl (Error (Some ''EACCES'') ''permission denied'')"
    by (simp add: ex_reader)
  show "\<not> notFound (Error (Some ''EACCES'') ''permission denied'')"
    by (simp add: notFound_def)
  show "readsDuring (exampleEnv\<lparr>nodeFileTrace := swallowingTrace\<rparr>) ''/work''
     (nodeFileTrace (exampleEnv\<lparr>nodeFileTrace := swallowingTrace\<rparr>)
        [fsPath (exampleRef ''/work/api/dist/functions/locked.js'')])
     initialState ''/work/api/dist/functions/locked.js'' initialState"
    by (simp add: swallowingTrace_def exampleRef_def reads_here)
  show "\<not> isl (build (exampleEnv\<lparr>nodeFileTrace := swallowingTrace\<rparr>) ''/work'' None []
            [(''locked.js'', exampleRef ''/work/api/dist/functions/locked.js'')] [])"
    by (simp add: ex_build ex_names4 swallowingTrace_def)
qed

section \<open>Static files\<close>




lemma staticLoop_keeps:
  "k \<notin> staticKey e workPath ` set entries \<Longrightarrow> staticLoop e workPath entries acc k = acc k"
  by (induction entries arbitrary: acc) auto

lemma staticLoop_distinct:
  "distinct (map (staticKey e workPath) entries) \<Longrightarrow> entry \<in> set entries \<Longrightarrow>
     staticLoop e workPath entries acc (staticKey e workPath entry) = Some (staticValue entry)"
proof (induction entries arbitrary: acc)
  case Nil
  then show ?case by simp
next
  case (Cons x xs)
  show ?case
  proof (cases "entry = x")
    case True
    then have "staticKey e workPath entry \<notin> staticKey e workPath ` set xs" using Cons.prems(1) by auto
    then show ?thesis using True by (simp add: staticLoop_keeps)
  next
    case False
    then show ?thesis using Cons by auto
  qed
qed






text \<open>
  Claim C8, against the rule transformation as the specification describes it. A run
  that returns a manifest returns a route table of exactly one rule: the catch-all
  pattern, rewritten to \<^verbatim>\<open>/200\<close> if \<^verbatim>\<open>200.html\<close> exists in \<^verbatim>\<open>web/dist\<close> and to
  \<^verbatim>\<open>/index\<close> otherwise, with clean URLs and without trailing slash.
\<close>

theorem one_fallback_route:
  assumes "build e workPath apiProxyPath webDistFiles topLevel oneLevelDeep = Inr m"
    and "getTransformedRoutes e = ruleTransformation malformed"
  shows "routes m =
           [\<lparr>pattern = ''/(.*)'',
             target = (if existsSync e (join [webDistPath workPath, ''200.html'']) then ''/200'' else ''/index''),
             cleanUrl = True, noTrailingSlash = True\<rparr>]"
proof -
  have r: "transformError (ruleTransformation malformed (nowConfig e workPath)) = None"
    "routes m = transformedRoutes (ruleTransformation malformed (nowConfig e workPath))"
    using build_result[OF assms(1)] assms(2) by auto
  show ?thesis
  proof (cases "malformed ''/(.*)''")
    case None
    then show ?thesis using r(2)
      by (simp add: ruleTransformation_def nowConfig_def fallbackHtmlPage_def List.map_filter_simps)
  next
    case (Some msg)
    then show ?thesis using r(1)
      by (simp add: ruleTransformation_def nowConfig_def List.map_filter_simps)
  qed
qed



text \<open>
  Claim C8, two instances: the example project, which has \<^verbatim>\<open>200.html\<close>, and the same
  project without it.
\<close>

theorem one_fallback_route_witness:
  "(\<exists>m. build exampleEnv ''/work'' None [] [] [] = Inr m \<and>
        routes m = [\<lparr>pattern = ''/(.*)'', target = ''/200'', cleanUrl = True, noTrailingSlash = True\<rparr>]) \<and>
   (\<exists>m. build (exampleEnv\<lparr>existsSync := \<lambda>p. False\<rparr>) ''/work'' None [] [] [] = Inr m \<and>
        routes m = [\<lparr>pattern = ''/(.*)'', target = ''/index'', cleanUrl = True, noTrailingSlash = True\<rparr>])"
proof -
  obtain m1 where m1: "build exampleEnv ''/work'' None [] [] [] = Inr m1"
    by (simp add: ex_build)
  obtain m2 where m2: "build (exampleEnv\<lparr>existsSync := \<lambda>p. False\<rparr>) ''/work'' None [] [] [] = Inr m2"
    by (simp add: ex_build)
  have g1: "getTransformedRoutes exampleEnv = ruleTransformation (\<lambda>p. None)"
    and g2: "getTransformedRoutes (exampleEnv\<lparr>existsSync := \<lambda>p. False\<rparr>) = ruleTransformation (\<lambda>p. None)"
    by (simp_all add: exampleEnv_def)
  have x1: "existsSync exampleEnv (join [webDistPath ''/work'', ''200.html''])"
    by (simp add: exampleEnv_def ex_static)
  have r1: "routes m1 = [\<lparr>pattern = ''/(.*)'', target = ''/200'', cleanUrl = True, noTrailingSlash = True\<rparr>]"
    using one_fallback_route[OF m1 g1] x1 by simp
  have r2: "routes m2 = [\<lparr>pattern = ''/(.*)'', target = ''/index'', cleanUrl = True, noTrailingSlash = True\<rparr>]"
    using one_fallback_route[OF m2 g2] by simp
  show ?thesis using m1 m2 r1 r2 by blast
qed

end
